theory Spec2Isabelle
  imports Main
begin

section \<open>Text normalization and matching helpers (content.js, part 4)\<close>

text \<open>
  JavaScript strings are modelled as \<^typ>\<open>string\<close>: a list of 8-bit code units. On this
  range \<open>toLowerCase\<close> moves \<open>A-Z\<close> and the Latin-1 capitals (code units 192 to 222
  without 215) up by 32 and leaves every other unit alone, and the regular expression
  class \<open>\s\<close> holds the units 9 to 13, 32 and 160. The classes \<open>[0-9]\<close> and
  \<open>[a-z]\<close> are the units 48 to 57 and 97 to 122.
\<close>

definition is_digit :: "char \<Rightarrow> bool" where
  "is_digit c = (48 \<le> (of_char c :: nat) \<and> (of_char c :: nat) \<le> 57)"

definition is_lower_alnum :: "char \<Rightarrow> bool" where
  "is_lower_alnum c =
     ((97 \<le> (of_char c :: nat) \<and> (of_char c :: nat) \<le> 122) \<or> is_digit c)"

definition is_space :: "char \<Rightarrow> bool" where
  "is_space c = ((of_char c :: nat) \<in> {9, 10, 11, 12, 13, 32, 160})"

definition lower_char :: "char \<Rightarrow> char" where
  "lower_char c =
     (let n = (of_char c :: nat)
      in if (65 \<le> n \<and> n \<le> 90) \<or> (192 \<le> n \<and> n \<le> 222 \<and> n \<noteq> 215)
         then char_of (n + 32) else c)"

definition toLowerCase :: "string \<Rightarrow> string" where
  "toLowerCase s = map lower_char s"

text \<open>\<open>s.replace(/[p]+/g, " ")\<close>: every maximal run of units in the class \<open>p\<close>
  becomes one space.\<close>

fun replace_runs :: "(char \<Rightarrow> bool) \<Rightarrow> string \<Rightarrow> string" where
  "replace_runs p [] = []"
| "replace_runs p [c] = (if p c then '' '' else [c])"
| "replace_runs p (c # d # cs) =
     (if p c then (if p d then replace_runs p (d # cs) else CHR '' '' # replace_runs p (d # cs))
      else c # replace_runs p (d # cs))"

definition trim :: "string \<Rightarrow> string" where
  "trim s = rev (dropWhile is_space (rev (dropWhile is_space s)))"

definition normalizeText :: "string \<Rightarrow> string" where
  "normalizeText text =
     (if text = [] then []
      else trim (replace_runs is_space
                   (replace_runs (\<lambda>c. \<not> is_lower_alnum c) (toLowerCase text))))"

fun starts_with :: "string \<Rightarrow> string \<Rightarrow> bool" where
  "starts_with hay [] = True"
| "starts_with [] (n # ns) = False"
| "starts_with (h # hs) (n # ns) = (h = n \<and> starts_with hs ns)"

text \<open>\<open>hay.includes(needle)\<close>: the needle occurs as a contiguous substring.\<close>

fun str_includes :: "string \<Rightarrow> string \<Rightarrow> bool" where
  "str_includes [] needle = (needle = [])"
| "str_includes (h # hs) needle = (starts_with (h # hs) needle \<or> str_includes hs needle)"

definition containsToken :: "string \<Rightarrow> string \<Rightarrow> bool" where
  "containsToken normalizedText normalizedToken =
     (if normalizedText = [] \<or> normalizedToken = [] then False
      else str_includes ('' '' @ normalizedText @ '' '') ('' '' @ normalizedToken @ '' ''))"

fun containsAny :: "string \<Rightarrow> string list \<Rightarrow> bool" where
  "containsAny normalizedText [] = False"
| "containsAny normalizedText (token # tokens) =
     (if containsToken normalizedText token then True
      else containsAny normalizedText tokens)"

text \<open>\<open>s.split(sep)\<close> for a separator that is one unit of the class \<open>p\<close>: the pieces
  between the separators, empty pieces kept, so the result is never the empty list.\<close>

fun split_on :: "(char \<Rightarrow> bool) \<Rightarrow> string \<Rightarrow> string list" where
  "split_on p [] = [[]]"
| "split_on p (c # cs) =
     (if p c then [] # split_on p cs
      else (case split_on p cs of [] \<Rightarrow> [[c]] | x # xs \<Rightarrow> (c # x) # xs))"

text \<open>A settings list is an array of strings, a string, or anything else.\<close>

datatype listValue = Arr "string list" | Str string | Other

definition normalizeList :: "listValue \<Rightarrow> string list" where
  "normalizeList listValue =
     (case listValue of
        Arr xs \<Rightarrow> filter (\<lambda>t. t \<noteq> []) (map normalizeText xs)
      | Str s \<Rightarrow>
          filter (\<lambda>t. t \<noteq> [])
            (map normalizeText (split_on (\<lambda>c. c = CHR 0x0A \<or> c = CHR '','') s))
      | Other \<Rightarrow> [])"

record settings =
  strongMusicKeywords :: listValue
  moderateMusicKeywords :: listValue
  nonMusicKeywords :: listValue
  channelMusicTokens :: listValue
  defaultPolicy :: string
  showBlocked :: bool
  debounceMs :: nat
  debugMode :: bool

record matchers =
  strong :: "string list"
  moderate :: "string list"
  non :: "string list"
  channel_tokens :: "string list"

definition buildMatchers :: "settings \<Rightarrow> matchers" where
  "buildMatchers currentSettings =
     \<lparr> strong = normalizeList (strongMusicKeywords currentSettings),
       moderate = normalizeList (moderateMusicKeywords currentSettings),
       non = normalizeList (nonMusicKeywords currentSettings),
       channel_tokens = normalizeList (channelMusicTokens currentSettings) \<rparr>"

section \<open>Duration parsing (content.js, part 5)\<close>

definition MUSIC_MIN_SECONDS :: int where "MUSIC_MIN_SECONDS = 90"
definition MUSIC_MAX_SECONDS :: int where "MUSIC_MAX_SECONDS = 600"
definition EXTREME_SHORT :: int where "EXTREME_SHORT = 30"
definition EXTREME_LONG :: int where "EXTREME_LONG = 30 * 60"

definition digit_value :: "char \<Rightarrow> nat" where
  "digit_value c = (of_char c :: nat) - 48"

definition digits_value :: "string \<Rightarrow> nat" where
  "digits_value ds = foldl (\<lambda>a c. 10 * a + digit_value c) 0 ds"

text \<open>
  \<open>parseInt(s, 10)\<close>: leading white space is skipped, one sign is read, then the longest
  run of decimal digits; \<open>None\<close> stands for \<open>NaN\<close> (no digit there). Numbers are exact
  integers here: the rounding of values beyond \<open>2^53\<close> is outside the model.
\<close>

definition parseInt :: "string \<Rightarrow> int option" where
  "parseInt s =
     (let t = dropWhile is_space s;
          sgn = (case t of [] \<Rightarrow> 1 | c # r \<Rightarrow> if c = CHR ''-'' then - 1 else (1 :: int));
          u = (case t of [] \<Rightarrow> [] | c # r \<Rightarrow> if c = CHR ''-'' \<or> c = CHR ''+'' then r else t);
          ds = takeWhile is_digit u
      in if ds = [] then None else Some (sgn * int (digits_value ds)))"

text \<open>The four \<open>return null\<close> statements of \<open>durationToSeconds\<close>, in source order.\<close>

datatype null_return = EmptyText | NoDigit | NoParts | NaNSegment

text \<open>The loop \<open>for (i = parts.length - 1; i >= 0; i -= 1)\<close>, run over the reversed
  parts with the two accumulators of the source.\<close>

fun sum_parts :: "string list \<Rightarrow> int \<Rightarrow> int \<Rightarrow> null_return + int" where
  "sum_parts [] seconds multiplier = Inr seconds"
| "sum_parts (p # ps) seconds multiplier =
     (case parseInt p of
        None \<Rightarrow> Inl NaNSegment
      | Some v \<Rightarrow> sum_parts ps (seconds + v * multiplier) (multiplier * 60))"

definition keep_digits_colons :: "string \<Rightarrow> string" where
  "keep_digits_colons s = filter (\<lambda>c. is_digit c \<or> c = CHR '':'') s"

definition duration_parts :: "string \<Rightarrow> string list" where
  "duration_parts cleaned =
     filter (\<lambda>p. p \<noteq> []) (split_on (\<lambda>c. c = CHR '':'') (keep_digits_colons cleaned))"

definition durationToSeconds_trace :: "string \<Rightarrow> null_return + int" where
  "durationToSeconds_trace text =
     (if text = [] then Inl EmptyText
      else let cleaned = trim (replace_runs is_space (toLowerCase text))
           in if \<not> list_ex is_digit cleaned then Inl NoDigit
              else let parts = duration_parts cleaned
                   in if parts = [] then Inl NoParts
                      else sum_parts (rev parts) 0 1)"

text \<open>\<open>durationToSeconds\<close> itself: seconds, or \<open>None\<close> for \<open>null\<close>.\<close>

definition durationToSeconds :: "string \<Rightarrow> int option" where
  "durationToSeconds text =
     (case durationToSeconds_trace text of Inl r \<Rightarrow> None | Inr n \<Rightarrow> Some n)"

definition durationInMusicRange :: "int option \<Rightarrow> bool" where
  "durationInMusicRange seconds =
     (case seconds of None \<Rightarrow> False
      | Some n \<Rightarrow> n \<ge> MUSIC_MIN_SECONDS \<and> n \<le> MUSIC_MAX_SECONDS)"

definition durationStronglyContradicts :: "int option \<Rightarrow> bool" where
  "durationStronglyContradicts seconds =
     (case seconds of None \<Rightarrow> False
      | Some n \<Rightarrow> n < EXTREME_SHORT \<or> n > EXTREME_LONG)"

section \<open>Item records and the classifier (content.js, parts 6 and 7)\<close>

record videoData =
  title :: string
  href :: string
  channel :: string
  durationText :: string
  durationSeconds :: "int option"
  videoId :: "string option"
  normalizedTitle :: string
  cacheKey :: "string option"

record classification =
  result_isMusic :: bool
  reason :: string

definition classifyVideo :: "settings \<Rightarrow> matchers \<Rightarrow> videoData \<Rightarrow> classification" where
  "classifyVideo st ms data =
     (let combined = normalizeText (title data @ '' '' @ channel data);
          channelNormalized = normalizeText (channel data)
      in if containsAny combined (strong ms)
         then \<lparr> result_isMusic = True, reason = ''strong'' \<rparr>
         else if containsAny combined (non ms)
         then \<lparr> result_isMusic = False, reason = ''non'' \<rparr>
         else if containsAny combined (moderate ms)
         then (if durationStronglyContradicts (durationSeconds data)
               then \<lparr> result_isMusic = False, reason = ''moderate+duration'' \<rparr>
               else \<lparr> result_isMusic = True, reason = ''moderate'' \<rparr>)
         else if durationInMusicRange (durationSeconds data)
                 \<and> containsAny channelNormalized (channel_tokens ms)
         then \<lparr> result_isMusic = True, reason = ''duration+channel'' \<rparr>
         else \<lparr> result_isMusic = (defaultPolicy st \<noteq> ''hide''), reason = ''default'' \<rparr>)"


section \<open>Extraction of the item record (content.js, part 6)\<close>

text \<open>
  A recommendation node: what the extraction functions read from it (title, link,
  channel, duration overlay, and the video id that \<open>extractVideoId\<close> finds), its
  \<open>dataset\<close> entries (\<open>None\<close> for an entry that was never written) and the two classes
  of its \<open>classList\<close>. The entry \<open>mvEpoch\<close> holds \<open>String(scanEpoch)\<close>; the model keeps
  the number.
\<close>

record element =
  dom_title :: string
  dom_href :: string
  dom_channel :: string
  dom_durationText :: string
  dom_videoId :: "string option"
  mvEpoch :: "nat option"
  mvKey :: "string option"
  mvProcessed :: "string option"
  mvWatchId :: "string option"
  mvReason :: "string option"
  mvTitle :: "string option"
  mvId :: "string option"
  mv_blocked :: bool
  mv_hidden :: bool

text \<open>A string or \<open>null\<close> in a condition: \<open>null\<close> and the empty string are falsy.\<close>

definition truthy :: "string option \<Rightarrow> bool" where
  "truthy s = (case s of None \<Rightarrow> False | Some x \<Rightarrow> x \<noteq> [])"

definition extractVideoData :: "element \<Rightarrow> videoData" where
  "extractVideoData root =
     (let t = dom_title root;
          nt = normalizeText t
      in \<lparr> title = t,
           href = dom_href root,
           channel = dom_channel root,
           durationText = dom_durationText root,
           durationSeconds = durationToSeconds (dom_durationText root),
           videoId = dom_videoId root,
           normalizedTitle = nt,
           cacheKey = (if truthy (dom_videoId root) then Some (''id:'' @ the (dom_videoId root))
                       else if nt \<noteq> [] then Some (''title:'' @ nt) else None) \<rparr>)"

section \<open>Decision cache (content.js, part 8)\<close>

definition MAX_CACHE_ENTRIES :: nat where "MAX_CACHE_ENTRIES = 5000"

record entry =
  isMusic :: bool
  ts :: nat

text \<open>
  \<open>decisionCache\<close> is a JavaScript \<open>Map\<close>: its entries in insertion order. \<open>Map.set\<close>
  on a key that is present replaces the value where it stands, on an absent key it
  appends; \<open>Map.delete\<close> removes the key; \<open>keys().next().value\<close> is the first key.
\<close>

type_synonym cache = "(string \<times> entry) list"

definition Map_get :: "string \<Rightarrow> cache \<Rightarrow> entry option" where
  "Map_get k c = map_of c k"

primrec Map_set :: "string \<Rightarrow> entry \<Rightarrow> cache \<Rightarrow> cache" where
  "Map_set k v [] = [(k, v)]"
| "Map_set k v (p # ps) = (if fst p = k then (k, v) # ps else p # Map_set k v ps)"

definition Map_delete :: "string \<Rightarrow> cache \<Rightarrow> cache" where
  "Map_delete k c = filter (\<lambda>p. fst p \<noteq> k) c"

text \<open>The cache and its pending write-back timer (\<open>cacheSaveTimer\<close>, set or null).\<close>

record cache_state =
  decisionCache :: cache
  cacheSaveTimer :: bool

definition scheduleCacheSave :: "cache_state \<Rightarrow> cache_state" where
  "scheduleCacheSave cs = (if cacheSaveTimer cs then cs else cs\<lparr>cacheSaveTimer := True\<rparr>)"

text \<open>The write-back callback: the timer is cleared and the snapshot handed to storage.\<close>

definition cacheSaveTimer_fires :: "cache_state \<Rightarrow> cache \<times> cache_state" where
  "cacheSaveTimer_fires cs = (decisionCache cs, cs\<lparr>cacheSaveTimer := False\<rparr>)"

text \<open>\<open>cacheGet(key)\<close> and \<open>cacheSet(key, isMusic)\<close>; the argument \<open>now\<close> is the value
  that \<open>Date.now()\<close> returns in the call.\<close>

definition cacheGet :: "string option \<Rightarrow> nat \<Rightarrow> cache_state \<Rightarrow> bool option \<times> cache_state" where
  "cacheGet key now cs =
     (if \<not> truthy key then (None, cs)
      else case Map_get (the key) (decisionCache cs) of
             None \<Rightarrow> (None, cs)
           | Some e \<Rightarrow>
               (Some (isMusic e),
                cs\<lparr>decisionCache :=
                     Map_set (the key) (e\<lparr>ts := now\<rparr>) (Map_delete (the key) (decisionCache cs))\<rparr>))"

definition cacheSet :: "string option \<Rightarrow> bool \<Rightarrow> nat \<Rightarrow> cache_state \<Rightarrow> cache_state" where
  "cacheSet key im now cs =
     (if \<not> truthy key then cs
      else let c1 = Map_set (the key) \<lparr>isMusic = im, ts = now\<rparr> (decisionCache cs);
               c2 = (if length c1 > MAX_CACHE_ENTRIES then Map_delete (fst (hd c1)) c1 else c1)
           in scheduleCacheSave (cs\<lparr>decisionCache := c2\<rparr>))"

text \<open>A history of cache calls, for statements about every sequence of operations.\<close>

datatype cache_op = Get "string option" nat | Put "string option" bool nat

fun cache_op_apply :: "cache_state \<Rightarrow> cache_op \<Rightarrow> cache_state" where
  "cache_op_apply cs (Get key now) = snd (cacheGet key now cs)"
| "cache_op_apply cs (Put key im now) = cacheSet key im now cs"

definition cache_run :: "cache_op list \<Rightarrow> cache_state \<Rightarrow> cache_state" where
  "cache_run ops cs = foldl cache_op_apply cs ops"

definition empty_cache :: cache_state where
  "empty_cache = \<lparr>decisionCache = [], cacheSaveTimer = False\<rparr>"

text \<open>A well-formed cache: a \<open>Map\<close> has each key once, and the bound holds.\<close>

definition cache_wf :: "cache \<Rightarrow> bool" where
  "cache_wf c = (distinct (map fst c) \<and> length c \<le> MAX_CACHE_ENTRIES)"


section \<open>Scanning state (content.js, parts 9 to 11)\<close>

record debugState =
  scanned :: nat
  blocked :: nat
  allowed :: nat
  lastScanAt :: nat
  lastReason :: string
  lastContext :: string
  lastPath :: string
  candidates :: nat
  skippedNoData :: nat
  skippedProcessed :: nat
  cacheHits :: nat

text \<open>
  The state of the content script: settings and compiled matchers, the cache, the scan
  timer (the delay it was set with, or \<open>None\<close> for null), the epoch, the debug counters,
  the nodes of the page by handle, the delayed-hide callbacks that are pending (by node),
  and the clock that \<open>Date.now()\<close> reads. The debug badge and console output are left out.
\<close>

record world =
  settings :: settings
  matchers :: matchers
  cache :: cache_state
  scanTimer :: "nat option"
  scanEpoch :: nat
  debugState :: debugState
  elements :: "nat \<Rightarrow> element"
  hideTimers :: "nat list"
  now :: nat

text \<open>
  What a pass reads from the document and the location: the scan targets with their
  candidate sets (\<open>getScanTargets\<close> and \<open>collectCandidates\<close>: context name and the
  set's nodes in insertion order), the watch page's video id and the path.
\<close>

record page =
  targets :: "(string \<times> nat list) list"
  currentWatchVideoId :: "string option"
  pathname :: string

definition update_element :: "nat \<Rightarrow> (element \<Rightarrow> element) \<Rightarrow> world \<Rightarrow> world" where
  "update_element i f w = w\<lparr>elements := (elements w)(i := f (elements w i))\<rparr>"

definition update_debug :: "(debugState \<Rightarrow> debugState) \<Rightarrow> world \<Rightarrow> world" where
  "update_debug f w = w\<lparr>debugState := f (debugState w)\<rparr>"

definition hideElement :: "nat \<Rightarrow> world \<Rightarrow> world" where
  "hideElement i w =
     (let w1 = update_element i (\<lambda>e. e\<lparr>mv_blocked := True\<rparr>) w
      in if showBlocked (settings w1) then w1
         else w1\<lparr>hideTimers := hideTimers w1 @ [i]\<rparr>)"

text \<open>The callback of \<open>hideElement\<close>, \<open>HIDE_DELAY_MS\<close> later, for the oldest pending one.\<close>

definition hideTimer_fires :: "world \<Rightarrow> world" where
  "hideTimer_fires w =
     (case hideTimers w of
        [] \<Rightarrow> w
      | i # rest \<Rightarrow>
          let w1 = w\<lparr>hideTimers := rest\<rparr>
          in if \<not> showBlocked (settings w1) \<and> mv_blocked (elements w1 i)
             then update_element i (\<lambda>e. e\<lparr>mv_hidden := True\<rparr>) w1 else w1)"

definition unhideElement :: "nat \<Rightarrow> world \<Rightarrow> world" where
  "unhideElement i w = update_element i (\<lambda>e. e\<lparr>mv_hidden := False, mv_blocked := False\<rparr>) w"

text \<open>\<open>Number(settings.debounceMs) || DEFAULTS.debounceMs || 60\<close>, with the default
  of 60 that the file itself gives.\<close>

definition debounce_delay :: "settings \<Rightarrow> nat" where
  "debounce_delay st = (if debounceMs st \<noteq> 0 then debounceMs st else 60)"

definition scheduleScan :: "world \<Rightarrow> world" where
  "scheduleScan w =
     (if scanTimer w \<noteq> None then w
      else w\<lparr>scanTimer := Some (debounce_delay (settings w))\<rparr>)"

text \<open>What a candidate's visit came to: the \<open>return\<close> it left through.\<close>

datatype outcome =
    SkippedEpoch
  | SkippedNoData
  | SkippedProcessed
  | CacheHit bool
  | Classified classification

text \<open>\<open>data.cacheKey || data.normalizedTitle || data.title\<close>\<close>

definition elementKey :: "videoData \<Rightarrow> string" where
  "elementKey data =
     (if truthy (cacheKey data) then the (cacheKey data)
      else if normalizedTitle data \<noteq> [] then normalizedTitle data
      else title data)"

text \<open>The second half of \<open>processCandidate\<close>, after the skip test: store the key
  (cut to 200 units) and the watch id, ask the cache, classify on a miss, apply and
  record the decision, mark the node processed.\<close>

definition decideCandidate :: "page \<Rightarrow> nat \<Rightarrow> videoData \<Rightarrow> world \<Rightarrow> outcome \<times> world" where
  "decideCandidate pg i data w =
     (let currentWatchId = currentWatchVideoId pg;
          w1 = (if elementKey data \<noteq> []
                then update_element i (\<lambda>e. e\<lparr>mvKey := Some (take 200 (elementKey data))\<rparr>) w
                else w);
          w2 = (if truthy currentWatchId
                then update_element i (\<lambda>e. e\<lparr>mvWatchId := currentWatchId\<rparr>) w1
                else w1);
          looked = (if truthy (cacheKey data) then cacheGet (cacheKey data) (now w2) (cache w2)
                    else (None, cache w2));
          w3 = w2\<lparr>cache := snd looked\<rparr>
      in case fst looked of
           Some cached \<Rightarrow>
             let w4 = (if \<not> cached then hideElement i w3 else unhideElement i w3);
                 w5 = (if debugMode (settings w4)
                       then update_element i (\<lambda>e. e\<lparr>mvReason := Some ''cache''\<rparr>)
                              (update_debug (\<lambda>d. d\<lparr>cacheHits := cacheHits d + 1\<rparr>) w4)
                       else w4)
             in (CacheHit cached, update_element i (\<lambda>e. e\<lparr>mvProcessed := Some ''1''\<rparr>) w5)
         | None \<Rightarrow>
             let result = classifyVideo (settings w3) (matchers w3) data;
                 w4 = (if \<not> result_isMusic result then hideElement i w3 else unhideElement i w3);
                 w5 = (if truthy (cacheKey data)
                       then w4\<lparr>cache := cacheSet (cacheKey data) (result_isMusic result) (now w4) (cache w4)\<rparr>
                       else w4);
                 w6 = (if debugMode (settings w5)
                       then update_element i
                              (\<lambda>e. e\<lparr>mvReason := Some (reason result),
                                     mvTitle := Some (take 80 (title data)),
                                     mvId := Some (if truthy (videoId data) then the (videoId data) else [])\<rparr>) w5
                       else w5);
                 w7 = update_debug
                        (\<lambda>d. (if result_isMusic result then d\<lparr>scanned := scanned d + 1, allowed := allowed d + 1\<rparr>
                               else d\<lparr>scanned := scanned d + 1, blocked := blocked d + 1\<rparr>)
                              \<lparr>lastReason := reason result\<rparr>) w6
             in (Classified result, update_element i (\<lambda>e. e\<lparr>mvProcessed := Some ''1''\<rparr>) w7))"

definition processCandidate :: "page \<Rightarrow> nat \<Rightarrow> string \<Rightarrow> world \<Rightarrow> outcome \<times> world" where
  "processCandidate pg i context w =
     (if mvEpoch (elements w i) = Some (scanEpoch w) then (SkippedEpoch, w)
      else
        let w1 = update_element i (\<lambda>e. e\<lparr>mvEpoch := Some (scanEpoch w)\<rparr>) w;
            data = extractVideoData (elements w1 i)
        in if title data = [] \<and> \<not> truthy (videoId data)
           then (SkippedNoData,
                 if debugMode (settings w1)
                 then update_debug (\<lambda>d. d\<lparr>skippedNoData := skippedNoData d + 1\<rparr>) w1 else w1)
           else
             let previousKey = (case mvKey (elements w1 i) of None \<Rightarrow> [] | Some k \<Rightarrow> k);
                 currentWatchId = currentWatchVideoId pg;
                 w2 = (if truthy currentWatchId \<and> mvWatchId (elements w1 i) \<noteq> currentWatchId
                       then update_element i
                              (\<lambda>e. e\<lparr>mvProcessed := Some [], mvKey := Some [],
                                     mvWatchId := currentWatchId\<rparr>) w1
                       else w1);
                 allowSkip = (context \<noteq> ''watch-sidebar'')
             in if allowSkip \<and> mvProcessed (elements w2 i) = Some ''1''
                   \<and> previousKey = elementKey data
                then (SkippedProcessed,
                      if debugMode (settings w2)
                      then update_debug (\<lambda>d. d\<lparr>skippedProcessed := skippedProcessed d + 1\<rparr>) w2
                      else w2)
                else decideCandidate pg i data w2)"

text \<open>\<open>candidates.forEach((el) => processCandidate(el, target.context))\<close>\<close>

definition processTarget :: "page \<Rightarrow> world \<Rightarrow> string \<times> nat list \<Rightarrow> world" where
  "processTarget pg w target =
     (let w1 = (if debugMode (settings w)
                then update_debug (\<lambda>d. d\<lparr>candidates := candidates d + length (snd target)\<rparr>) w
                else w)
      in foldl (\<lambda>v i. snd (processCandidate pg i (fst target) v)) w1 (snd target))"

text \<open>\<open>targets.map((t) => t.context).join(",") || "-"\<close>\<close>

fun join_comma :: "string list \<Rightarrow> string" where
  "join_comma [] = []"
| "join_comma [x] = x"
| "join_comma (x # y # ys) = x @ '','' @ join_comma (y # ys)"

definition scanNow :: "page \<Rightarrow> world \<Rightarrow> world" where
  "scanNow pg w =
     (let w1 = (if debugMode (settings w)
                then update_debug
                       (\<lambda>d. d\<lparr>scanned := 0, blocked := 0, allowed := 0, lastScanAt := now w,
                              lastReason := [], lastContext := [], lastPath := pathname pg,
                              candidates := 0, skippedNoData := 0, skippedProcessed := 0,
                              cacheHits := 0\<rparr>) w
                else w);
          w2 = w1\<lparr>scanEpoch := scanEpoch w1 + 1\<rparr>;
          w3 = (if debugMode (settings w2)
                then update_debug
                       (\<lambda>d. d\<lparr>lastContext :=
                                (if join_comma (map fst (targets pg)) \<noteq> []
                                 then join_comma (map fst (targets pg)) else ''-'')\<rparr>) w2
                else w2)
      in foldl (processTarget pg) w3 (targets pg))"

text \<open>The first half of \<open>rescanAll\<close>: the marks of one node are removed.\<close>

definition clearCandidate :: "world \<Rightarrow> nat \<Rightarrow> world" where
  "clearCandidate w i =
     unhideElement i (update_element i (\<lambda>e. e\<lparr>mvProcessed := Some [], mvKey := Some []\<rparr>) w)"

definition clearTargets :: "page \<Rightarrow> world \<Rightarrow> world" where
  "clearTargets pg w = foldl (\<lambda>v target. foldl clearCandidate v (snd target)) w (targets pg)"

definition rescanAll :: "page \<Rightarrow> world \<Rightarrow> world" where
  "rescanAll pg w = scanNow pg (clearTargets pg w)"

text \<open>
  The events that drive the scheduler: a change signal (mutation, navigation) calls
  \<open>scheduleScan\<close>; the debounce timer, when one is pending, fires, clears itself and
  scans; a rescan command scans at once.
\<close>

datatype event = Signal | TimerFires page | Rescan page

fun step :: "world \<Rightarrow> event \<Rightarrow> world" where
  "step w Signal = scheduleScan w"
| "step w (TimerFires pg) =
     (if scanTimer w = None then w else scanNow pg (w\<lparr>scanTimer := None\<rparr>))"
| "step w (Rescan pg) = rescanAll pg w"

definition run :: "event list \<Rightarrow> world \<Rightarrow> world" where
  "run evs w = foldl step w evs"

text \<open>The scans that a sequence of events executes, and the timers it sets.\<close>

fun executed_scans :: "event list \<Rightarrow> world \<Rightarrow> nat" where
  "executed_scans [] w = 0"
| "executed_scans (Signal # evs) w = executed_scans evs (step w Signal)"
| "executed_scans (TimerFires pg # evs) w =
     (if scanTimer w = None then 0 else 1) + executed_scans evs (step w (TimerFires pg))"
| "executed_scans (Rescan pg # evs) w = 1 + executed_scans evs (step w (Rescan pg))"

fun timers_set :: "event list \<Rightarrow> world \<Rightarrow> nat" where
  "timers_set [] w = 0"
| "timers_set (Signal # evs) w =
     (if scanTimer w = None then 1 else 0) + timers_set evs (step w Signal)"
| "timers_set (e # evs) w = timers_set evs (step w e)"

text \<open>Concrete inputs for the examples: a node that was never visited, settings whose
  keyword lists are arrays, and an idle state with an empty cache.\<close>

definition fresh_node :: "string \<Rightarrow> string \<Rightarrow> string \<Rightarrow> string option \<Rightarrow> element" where
  "fresh_node t ch dur vid =
     \<lparr> dom_title = t, dom_href = [], dom_channel = ch, dom_durationText = dur,
       dom_videoId = vid, mvEpoch = None, mvKey = None, mvProcessed = None,
       mvWatchId = None, mvReason = None, mvTitle = None, mvId = None,
       mv_blocked = False, mv_hidden = False \<rparr>"

definition keyword_settings ::
  "string list \<Rightarrow> string list \<Rightarrow> string list \<Rightarrow> string list \<Rightarrow> string \<Rightarrow> settings" where
  "keyword_settings s m n c policy =
     \<lparr> strongMusicKeywords = Arr s, moderateMusicKeywords = Arr m, nonMusicKeywords = Arr n,
       channelMusicTokens = Arr c, defaultPolicy = policy, showBlocked = False,
       debounceMs = 60, debugMode = False \<rparr>"

definition initial_world :: "settings \<Rightarrow> (nat \<Rightarrow> element) \<Rightarrow> world" where
  "initial_world st els =
     \<lparr> settings = st, matchers = buildMatchers st, cache = empty_cache, scanTimer = None,
       scanEpoch = 0,
       debugState = \<lparr> scanned = 0, blocked = 0, allowed = 0, lastScanAt = 0, lastReason = [],
                      lastContext = [], lastPath = [], candidates = 0, skippedNoData = 0,
                      skippedProcessed = 0, cacheHits = 0 \<rparr>,
       elements = els, hideTimers = [], now = 0 \<rparr>"


definition put_entry :: "string \<times> bool \<times> nat \<Rightarrow> string \<times> entry" where
  "put_entry x = (case x of (k, im, t) \<Rightarrow> (k, \<lparr>isMusic = im, ts = t\<rparr>))"

definition get_op :: "string option \<times> nat \<Rightarrow> cache_op" where
  "get_op x = (case x of (key, t) \<Rightarrow> Get key t)"


text \<open>The key a node carries in \<open>dataset.mvKey\<close> is never longer than 200 units.\<close>

definition stored_key_ok :: "element \<Rightarrow> bool" where
  "stored_key_ok e = (case mvKey e of None \<Rightarrow> True | Some k \<Rightarrow> length k \<le> 200)"

text \<open>Example pages and states: a home page with one tile, not yet visited, that has
  the given title and no video id; and the same state with a cache that holds 5000
  decisions.\<close>

definition home_page :: page where
  "home_page = \<lparr>targets = [(''home'', [0])], currentWatchVideoId = None, pathname = ''/''\<rparr>"

definition title_world :: "string \<Rightarrow> world" where
  "title_world t =
     initial_world (keyword_settings [] [] [] [] ''show'') (\<lambda>i. fresh_node t [] [] None)"



text \<open>
  The tests and the two small updates of \<open>processCandidate\<close>, named: no title and no
  video id; the stamp of the current epoch; the reset when the watch page's video
  changed; and the test that lets an already processed node be skipped.
\<close>

definition no_data :: "element \<Rightarrow> bool" where
  "no_data el = (title (extractVideoData el) = [] \<and> \<not> truthy (videoId (extractVideoData el)))"

definition visit :: "nat \<Rightarrow> world \<Rightarrow> world" where
  "visit i w = update_element i (\<lambda>e. e\<lparr>mvEpoch := Some (scanEpoch w)\<rparr>) w"

definition watch_reset :: "page \<Rightarrow> nat \<Rightarrow> world \<Rightarrow> world" where
  "watch_reset pg i w =
     (if truthy (currentWatchVideoId pg) \<and> mvWatchId (elements w i) \<noteq> currentWatchVideoId pg
      then update_element i (\<lambda>e. e\<lparr>mvProcessed := Some [], mvKey := Some [],
                                     mvWatchId := currentWatchVideoId pg\<rparr>) w
      else w)"

definition skip_applies :: "page \<Rightarrow> string \<Rightarrow> element \<Rightarrow> bool" where
  "skip_applies pg ctx el =
     (ctx \<noteq> ''watch-sidebar''
      \<and> \<not> (truthy (currentWatchVideoId pg) \<and> mvWatchId el \<noteq> currentWatchVideoId pg)
      \<and> mvProcessed el = Some ''1''
      \<and> (case mvKey el of None \<Rightarrow> [] | Some k \<Rightarrow> k) = elementKey (extractVideoData el))"




section \<open>Properties of the duration parser\<close>











lemma split_on_nonempty: "split_on p s \<noteq> []"
  by (induction s) (auto split: list.splits)
















section \<open>Properties of the classifier\<close>

lemma starts_with_iff: "starts_with hay needle = (\<exists>post. hay = needle @ post)"
  by (induction hay needle rule: starts_with.induct) auto

lemma str_includes_iff: "str_includes hay needle = (\<exists>pre post. hay = pre @ needle @ post)"
proof (induction hay)
  case Nil
  show ?case by auto
next
  case (Cons h hs)
  show ?case
  proof
    assume "str_includes (h # hs) needle"
    then consider "starts_with (h # hs) needle" | "str_includes hs needle" by auto
    then show "\<exists>pre post. h # hs = pre @ needle @ post"
    proof cases
      case 1
      then obtain post where "h # hs = needle @ post" by (auto simp: starts_with_iff)
      then have "h # hs = [] @ needle @ post" by simp
      then show ?thesis by blast
    next
      case 2
      then obtain pre post where "hs = pre @ needle @ post" using Cons.IH by auto
      then have "h # hs = (h # pre) @ needle @ post" by simp
      then show ?thesis by blast
    qed
  next
    assume "\<exists>pre post. h # hs = pre @ needle @ post"
    then obtain pre post where e: "h # hs = pre @ needle @ post" by auto
    show "str_includes (h # hs) needle"
    proof (cases pre)
      case Nil
      then have "starts_with (h # hs) needle" using e by (auto simp: starts_with_iff)
      then show ?thesis by simp
    next
      case (Cons a pre')
      then have "hs = pre' @ needle @ post" using e by simp
      then have "str_includes hs needle" using Cons.IH by auto
      then show ?thesis by simp
    qed
  qed
qed

lemma containsAny_iff:
  "containsAny t toks = (\<exists>tok\<in>set toks. containsToken t tok)"
  by (induction toks) auto

text \<open>
  Claim C1. \<open>classifyVideo\<close> is a cascade in which the first rule that matches decides:
  a strong token in the normalized title-and-channel text gives match, reason
  \<open>strong\<close>; else a negative token gives no-match, reason \<open>non\<close>; else a moderate
  token gives no-match with reason \<open>moderate+duration\<close> when the duration strongly
  contradicts and match with reason \<open>moderate\<close> otherwise; else a duration in the
  target range together with a channel-affinity token in the normalized channel gives
  match, reason \<open>duration+channel\<close>; else the result is the default policy (match
  unless the policy is \<open>hide\<close>), reason \<open>default\<close>. An item with both a strong and
  a negative token is a match with reason \<open>strong\<close>.
\<close>

theorem classifyVideo_cascade:
  "let combined = normalizeText (title data @ '' '' @ channel data);
       S = containsAny combined (strong ms);
       N = containsAny combined (non ms);
       M = containsAny combined (moderate ms);
       D = (durationInMusicRange (durationSeconds data)
            \<and> containsAny (normalizeText (channel data)) (channel_tokens ms))
   in (S \<longrightarrow> classifyVideo st ms data = \<lparr>result_isMusic = True, reason = ''strong''\<rparr>)
    \<and> (\<not> S \<and> N \<longrightarrow> classifyVideo st ms data = \<lparr>result_isMusic = False, reason = ''non''\<rparr>)
    \<and> (\<not> S \<and> \<not> N \<and> M \<and> durationStronglyContradicts (durationSeconds data) \<longrightarrow>
          classifyVideo st ms data = \<lparr>result_isMusic = False, reason = ''moderate+duration''\<rparr>)
    \<and> (\<not> S \<and> \<not> N \<and> M \<and> \<not> durationStronglyContradicts (durationSeconds data) \<longrightarrow>
          classifyVideo st ms data = \<lparr>result_isMusic = True, reason = ''moderate''\<rparr>)
    \<and> (\<not> S \<and> \<not> N \<and> \<not> M \<and> D \<longrightarrow>
          classifyVideo st ms data = \<lparr>result_isMusic = True, reason = ''duration+channel''\<rparr>)
    \<and> (\<not> S \<and> \<not> N \<and> \<not> M \<and> \<not> D \<longrightarrow>
          classifyVideo st ms data =
            \<lparr>result_isMusic = (defaultPolicy st \<noteq> ''hide''), reason = ''default''\<rparr>)
    \<and> (S \<and> N \<longrightarrow> classifyVideo st ms data = \<lparr>result_isMusic = True, reason = ''strong''\<rparr>)"
  by (simp add: classifyVideo_def Let_def)

theorem classifyVideo_cascade_witness:
  "containsAny (normalizeText (''Live Session Highlights'' @ '' '' @ ''Some Channel'')) [''live session'']
   \<and> containsAny (normalizeText (''Live Session Highlights'' @ '' '' @ ''Some Channel'')) [''live'']
   \<and> classifyVideo (keyword_settings [''Live Session''] [] [''live''] [] ''show'')
        (buildMatchers (keyword_settings [''Live Session''] [] [''live''] [] ''show''))
        (extractVideoData (fresh_node ''Live Session Highlights'' ''Some Channel'' ''3:05'' None))
      = \<lparr>result_isMusic = True, reason = ''strong''\<rparr>"
proof -
  let ?st = "keyword_settings [''Live Session''] [] [''live''] [] ''show''"
  let ?d = "extractVideoData (fresh_node ''Live Session Highlights'' ''Some Channel'' ''3:05'' None)"
  have t: "title ?d = ''Live Session Highlights''" "channel ?d = ''Some Channel''"
    by (simp_all add: extractVideoData_def fresh_node_def Let_def)
  have m: "strong (buildMatchers ?st) = [''live session'']" "non (buildMatchers ?st) = [''live'']"
    by code_simp+
  have s: "containsAny (normalizeText (''Live Session Highlights'' @ '' '' @ ''Some Channel'')) [''live session'']"
    by code_simp
  have n: "containsAny (normalizeText (''Live Session Highlights'' @ '' '' @ ''Some Channel'')) [''live'']"
    by code_simp
  from classifyVideo_cascade [of "?d" "buildMatchers ?st" "?st"] s n
  show ?thesis unfolding Let_def t m by blast
qed

text \<open>
  Claim C5. For an unknown duration (\<open>null\<close>) both duration predicates are false. So an
  item with a moderate token (and no strong or negative one) and an unknown duration is
  a match with reason \<open>moderate\<close>, and no item with an unknown duration is ever
  classified by the rule \<open>duration+channel\<close>.
\<close>

theorem unknown_duration_rules:
  "durationInMusicRange None = False
   \<and> durationStronglyContradicts None = False
   \<and> (let combined = normalizeText (title data @ '' '' @ channel data)
      in durationSeconds data = None
         \<and> \<not> containsAny combined (strong ms) \<and> \<not> containsAny combined (non ms)
         \<and> containsAny combined (moderate ms)
         \<longrightarrow> classifyVideo st ms data = \<lparr>result_isMusic = True, reason = ''moderate''\<rparr>)
   \<and> (durationSeconds data = None \<longrightarrow> reason (classifyVideo st ms data) \<noteq> ''duration+channel'')
   \<and> (durationToSeconds (dom_durationText root) = None \<longrightarrow>
        reason (classifyVideo st ms (extractVideoData root)) \<noteq> ''duration+channel'')"
proof -
  have a: "durationInMusicRange None = False \<and> durationStronglyContradicts None = False"
    by (simp add: durationInMusicRange_def durationStronglyContradicts_def)
  have b: "let combined = normalizeText (title data @ '' '' @ channel data)
      in durationSeconds data = None
         \<and> \<not> containsAny combined (strong ms) \<and> \<not> containsAny combined (non ms)
         \<and> containsAny combined (moderate ms)
         \<longrightarrow> classifyVideo st ms data = \<lparr>result_isMusic = True, reason = ''moderate''\<rparr>"
    by (simp add: classifyVideo_def Let_def durationStronglyContradicts_def)
  have c: "durationSeconds d = None \<longrightarrow> reason (classifyVideo st ms d) \<noteq> ''duration+channel''" for d
    by (simp add: classifyVideo_def Let_def durationInMusicRange_def)
  have "durationSeconds (extractVideoData root) = durationToSeconds (dom_durationText root)"
    by (simp add: extractVideoData_def Let_def)
  with c [of "extractVideoData root"] c [of data] a b show ?thesis by simp
qed

theorem unknown_duration_rules_witness:
  "durationToSeconds ''LIVE'' = None
   \<and> classifyVideo (keyword_settings [] [''remix''] [] [''records''] ''hide'')
        (buildMatchers (keyword_settings [] [''remix''] [] [''records''] ''hide''))
        (extractVideoData (fresh_node ''Summer Remix'' ''Night Records'' ''LIVE'' None))
      = \<lparr>result_isMusic = True, reason = ''moderate''\<rparr>
   \<and> reason (classifyVideo (keyword_settings [] [] [] [''records''] ''hide'')
        (buildMatchers (keyword_settings [] [] [] [''records''] ''hide''))
        (extractVideoData (fresh_node ''Summer Nights'' ''Night Records'' ''LIVE'' None)))
      = ''default''"
proof -
  let ?st = "keyword_settings [] [''remix''] [] [''records''] ''hide''"
  let ?d = "extractVideoData (fresh_node ''Summer Remix'' ''Night Records'' ''LIVE'' None)"
  let ?st2 = "keyword_settings [] [] [] [''records''] ''hide''"
  let ?d2 = "extractVideoData (fresh_node ''Summer Nights'' ''Night Records'' ''LIVE'' None)"
  have n: "durationToSeconds ''LIVE'' = None" by code_simp
  have d: "durationSeconds ?d = None" "durationSeconds ?d2 = None"
    by (simp_all add: extractVideoData_def fresh_node_def Let_def n)
  have k: "\<not> containsAny (normalizeText (title ?d @ '' '' @ channel ?d)) (strong (buildMatchers ?st))"
    "\<not> containsAny (normalizeText (title ?d @ '' '' @ channel ?d)) (non (buildMatchers ?st))"
    "containsAny (normalizeText (title ?d @ '' '' @ channel ?d)) (moderate (buildMatchers ?st))"
    by code_simp+
  have r: "reason (classifyVideo ?st2 (buildMatchers ?st2) ?d2) = ''default''" by code_simp
  from unknown_duration_rules [of "?d" "buildMatchers ?st" "?st"] d k n r
  show ?thesis unfolding Let_def by blast
qed

section \<open>Properties of the decision cache\<close>

lemma Map_get_set: "Map_get k' (Map_set k v c) = (if k' = k then Some v else Map_get k' c)"
  by (induction c) (auto simp: Map_get_def)

lemma Map_get_delete: "Map_get k' (Map_delete k c) = (if k' = k then None else Map_get k' c)"
  by (induction c) (auto simp: Map_get_def Map_delete_def)

lemma Map_get_None_iff: "(Map_get k c = None) = (k \<notin> fst ` set c)"
  by (simp add: Map_get_def map_of_eq_None_iff)

lemma Map_set_absent: "k \<notin> fst ` set c \<Longrightarrow> Map_set k v c = c @ [(k, v)]"
  by (induction c) auto

lemma keys_Map_set:
  "map fst (Map_set k v c) = (if k \<in> fst ` set c then map fst c else map fst c @ [k])"
  by (induction c) auto

lemma length_Map_set:
  "length (Map_set k v c) = (if k \<in> fst ` set c then length c else Suc (length c))"
  using arg_cong [OF keys_Map_set, of length k v c] by (simp split: if_splits)




lemma Map_delete_absent: "k \<notin> fst ` set c \<Longrightarrow> Map_delete k c = c"
  by (induction c) (auto simp: Map_delete_def)

lemma Map_delete_head:
  assumes "distinct (map fst c)" "c \<noteq> []"
  shows "Map_delete (fst (hd c)) c = tl c"
proof -
  obtain p ps where c: "c = p # ps" using assms(2) by (cases c) auto
  then have "fst p \<notin> fst ` set ps" using assms(1) by auto
  then show ?thesis using c by (simp add: Map_delete_def Map_delete_absent [unfolded Map_delete_def])
qed


lemma length_Map_delete_le: "length (Map_delete k c) \<le> length c"
  by (simp add: Map_delete_def)

lemma decisionCache_scheduleCacheSave [simp]:
  "decisionCache (scheduleCacheSave cs) = decisionCache cs"
  by (simp add: scheduleCacheSave_def)


lemma decisionCache_cacheSet:
  "truthy key \<Longrightarrow> decisionCache (cacheSet key im t cs) =
     (let c1 = Map_set (the key) \<lparr>isMusic = im, ts = t\<rparr> (decisionCache cs)
      in if length c1 > MAX_CACHE_ENTRIES then Map_delete (fst (hd c1)) c1 else c1)"
  by (simp add: cacheSet_def Let_def)

lemma cacheSet_overflow:
  assumes "cache_wf (decisionCache cs)" "truthy key"
    and "length (Map_set (the key) \<lparr>isMusic = im, ts = t\<rparr> (decisionCache cs)) > MAX_CACHE_ENTRIES"
  shows "decisionCache (cacheSet key im t cs) = tl (decisionCache cs) @ [(the key, \<lparr>isMusic = im, ts = t\<rparr>)]"
    and "length (decisionCache (cacheSet key im t cs)) = MAX_CACHE_ENTRIES"
    and "the key \<notin> fst ` set (decisionCache cs)"
    and "length (decisionCache cs) = MAX_CACHE_ENTRIES"
proof -
  let ?c = "decisionCache cs" and ?v = "\<lparr>isMusic = im, ts = t\<rparr>"
  have wf: "distinct (map fst ?c)" "length ?c \<le> MAX_CACHE_ENTRIES"
    using assms(1) by (simp_all add: cache_wf_def)
  show absent: "the key \<notin> fst ` set ?c"
    using assms(3) wf(2) by (auto simp: length_Map_set split: if_splits)
  then show full: "length ?c = MAX_CACHE_ENTRIES"
    using assms(3) wf(2) by (simp add: length_Map_set)
  have c1: "Map_set (the key) ?v ?c = ?c @ [(the key, ?v)]"
    using absent by (rule Map_set_absent)
  have ne: "?c \<noteq> []" using full by (auto simp: MAX_CACHE_ENTRIES_def)
  have d1: "distinct (map fst (?c @ [(the key, ?v)]))"
    using wf(1) absent by auto
  have "Map_delete (fst (hd (?c @ [(the key, ?v)]))) (?c @ [(the key, ?v)]) = tl (?c @ [(the key, ?v)])"
    using d1 by (intro Map_delete_head) auto
  then show r: "decisionCache (cacheSet key im t cs) = tl ?c @ [(the key, ?v)]"
    using assms(2,3) ne by (simp add: decisionCache_cacheSet c1 Let_def)
  show "length (decisionCache (cacheSet key im t cs)) = MAX_CACHE_ENTRIES"
    using full ne by (cases "decisionCache cs") (simp_all add: r)
qed


lemma cacheGet_miss:
  "\<not> truthy key \<or> Map_get (the key) (decisionCache cs) = None \<Longrightarrow> cacheGet key t cs = (None, cs)"
  by (auto simp: cacheGet_def)





lemma empty_cache_wf: "cache_wf (decisionCache empty_cache)"
  by (simp add: empty_cache_def cache_wf_def)



lemma cache_run_Cons: "cache_run (op # ops) cs = cache_run ops (cache_op_apply cs op)"
  by (simp add: cache_run_def)

lemma fst_put_entry [simp]: "fst (put_entry x) = fst x"
  by (cases x) (simp add: put_entry_def)








lemma Map_get_snoc_absent: "k \<notin> fst ` set c \<Longrightarrow> Map_get k (c @ [(k, v)]) = Some v"
  by (induction c) (auto simp: Map_get_def)

lemma Map_get_cacheSet:
  assumes "cache_wf (decisionCache cs)" "truthy key"
  shows "Map_get (the key) (decisionCache (cacheSet key im t cs)) = Some \<lparr>isMusic = im, ts = t\<rparr>"
proof (cases "length (Map_set (the key) \<lparr>isMusic = im, ts = t\<rparr> (decisionCache cs)) > MAX_CACHE_ENTRIES")
  case True
  have "the key \<notin> fst ` set (tl (decisionCache cs))"
    using cacheSet_overflow(3) [OF assms True] by (cases "decisionCache cs") auto
  then have "Map_get (the key) (tl (decisionCache cs) @ [(the key, \<lparr>isMusic = im, ts = t\<rparr>)])
             = Some \<lparr>isMusic = im, ts = t\<rparr>"
    by (rule Map_get_snoc_absent)
  then show ?thesis using cacheSet_overflow(1) [OF assms True] by simp
next
  case False
  then show ?thesis using assms(2)
    by (simp add: decisionCache_cacheSet Let_def Map_get_set)
qed

lemma cacheGet_payload:
  "map_option isMusic (Map_get k (decisionCache (snd (cacheGet key t cs))))
   = map_option isMusic (Map_get k (decisionCache cs))"
proof (cases "truthy key \<and> Map_get (the key) (decisionCache cs) \<noteq> None")
  case False
  then show ?thesis using cacheGet_miss [of key cs t] by auto
next
  case True
  then obtain e where e: "Map_get (the key) (decisionCache cs) = Some e" by auto
  have "decisionCache (snd (cacheGet key t cs))
        = Map_set (the key) (e\<lparr>ts := t\<rparr>) (Map_delete (the key) (decisionCache cs))"
    using True e by (simp add: cacheGet_def)
  then show ?thesis using e by (simp add: Map_get_set Map_get_delete)
qed

lemma gets_payload:
  "map_option isMusic (Map_get k (decisionCache (cache_run (map get_op gets) cs)))
   = map_option isMusic (Map_get k (decisionCache cs))"
proof (induction gets arbitrary: cs)
  case Nil
  show ?case by (simp add: cache_run_def)
next
  case (Cons g gets)
  obtain key t where g: "g = (key, t)" by (cases g) auto
  have "get_op g = Get key t" by (simp add: g get_op_def)
  then show ?case
    using Cons.IH [of "snd (cacheGet key t cs)"] cacheGet_payload [of k key t cs]
    by (simp add: cache_run_Cons)
qed

lemma cacheGet_result:
  "fst (cacheGet key t cs) =
     (if truthy key then map_option isMusic (Map_get (the key) (decisionCache cs)) else None)"
  by (simp add: cacheGet_def split: option.splits)







text \<open>
  Claim C4. In a well-formed cache and for a key that is not empty, a get right after
  \<open>put(k, d)\<close> returns \<open>d\<close>, and so does a get after any number of further gets; a get
  never changes the decision stored under any key; and a get returns null exactly
  when the key is null or empty or is not in the cache.
\<close>

theorem cache_round_trip:
  "(cache_wf (decisionCache cs) \<and> truthy key \<longrightarrow>
      fst (cacheGet key t' (cacheSet key d t cs)) = Some d
      \<and> fst (cacheGet key t' (cache_run (map get_op gets) (cacheSet key d t cs))) = Some d)
   \<and> map_option isMusic (Map_get k (decisionCache (snd (cacheGet key t cs))))
       = map_option isMusic (Map_get k (decisionCache cs))
   \<and> (fst (cacheGet key t cs) = None)
       = (\<not> truthy key \<or> the key \<notin> fst ` set (decisionCache cs))"
proof -
  have a: "fst (cacheGet key t' (cacheSet key d t cs)) = Some d
      \<and> fst (cacheGet key t' (cache_run (map get_op gets) (cacheSet key d t cs))) = Some d"
    if h: "cache_wf (decisionCache cs)" "truthy key"
  proof -
    have p: "Map_get (the key) (decisionCache (cacheSet key d t cs)) = Some \<lparr>isMusic = d, ts = t\<rparr>"
      using h by (rule Map_get_cacheSet)
    have "map_option isMusic (Map_get (the key)
             (decisionCache (cache_run (map get_op gets) (cacheSet key d t cs)))) = Some d"
      using gets_payload [of "the key" gets "cacheSet key d t cs"] p by simp
    then show ?thesis using p h(2) by (simp add: cacheGet_result)
  qed
  have b: "(fst (cacheGet key t cs) = None)
       = (\<not> truthy key \<or> the key \<notin> fst ` set (decisionCache cs))"
    by (simp add: cacheGet_result Map_get_None_iff)
  from a b cacheGet_payload [of k key t cs] show ?thesis by blast
qed

theorem cache_round_trip_witness:
  "cache_wf (decisionCache empty_cache) \<and> truthy (Some ''id:abc'')
   \<and> fst (cacheGet (Some ''id:abc'') 2 (cacheSet (Some ''id:abc'') False 1 empty_cache)) = Some False
   \<and> fst (cacheGet (Some ''id:abc'') 2
        (cache_run (map get_op [(Some ''id:abc'', 3), (Some ''id:xyz'', 4), (Some ''id:abc'', 5)])
           (cacheSet (Some ''id:abc'') False 1 empty_cache))) = Some False
   \<and> fst (cacheGet (Some ''id:xyz'') 2 (cacheSet (Some ''id:abc'') False 1 empty_cache)) = None"
proof -
  let ?cs = "cacheSet (Some ''id:abc'') False 1 empty_cache"
  have t: "truthy (Some ''id:abc'')" "truthy (Some ''id:xyz'')" by (simp_all add: truthy_def)
  have k: "fst ` set (decisionCache ?cs) = {''id:abc''}" by code_simp
  note A = cache_round_trip [where cs = empty_cache and key = "Some ''id:abc''" and t' = 2
      and d = False and t = 1
      and gets = "[(Some ''id:abc'', 3), (Some ''id:xyz'', 4), (Some ''id:abc'', 5)]"]
  note B = cache_round_trip [where cs = ?cs and key = "Some ''id:xyz''" and t = 2]
  from A empty_cache_wf t(1)
  have a: "fst (cacheGet (Some ''id:abc'') 2 ?cs) = Some False
      \<and> fst (cacheGet (Some ''id:abc'') 2
        (cache_run (map get_op [(Some ''id:abc'', 3), (Some ''id:xyz'', 4), (Some ''id:abc'', 5)]) ?cs))
          = Some False"
    by blast
  have "the (Some ''id:xyz'') \<notin> fst ` set (decisionCache ?cs)" unfolding k by simp
  with B have b: "fst (cacheGet (Some ''id:xyz'') 2 ?cs) = None" by blast
  from a b empty_cache_wf t(1) show ?thesis by blast
qed

section \<open>Properties of the scanner and the scheduler\<close>

lemma update_element_fields [simp]:
  "settings (update_element i f w) = settings w"
  "matchers (update_element i f w) = matchers w"
  "cache (update_element i f w) = cache w"
  "scanTimer (update_element i f w) = scanTimer w"
  "scanEpoch (update_element i f w) = scanEpoch w"
  "debugState (update_element i f w) = debugState w"
  "hideTimers (update_element i f w) = hideTimers w"
  "now (update_element i f w) = now w"
  "elements (update_element i f w) = (elements w)(i := f (elements w i))"
  by (simp_all add: update_element_def)

lemma update_debug_fields [simp]:
  "settings (update_debug g w) = settings w"
  "matchers (update_debug g w) = matchers w"
  "cache (update_debug g w) = cache w"
  "scanTimer (update_debug g w) = scanTimer w"
  "scanEpoch (update_debug g w) = scanEpoch w"
  "debugState (update_debug g w) = g (debugState w)"
  "hideTimers (update_debug g w) = hideTimers w"
  "now (update_debug g w) = now w"
  "elements (update_debug g w) = elements w"
  by (simp_all add: update_debug_def)

lemma hideElement_fields [simp]:
  "settings (hideElement i w) = settings w"
  "matchers (hideElement i w) = matchers w"
  "cache (hideElement i w) = cache w"
  "scanTimer (hideElement i w) = scanTimer w"
  "scanEpoch (hideElement i w) = scanEpoch w"
  "debugState (hideElement i w) = debugState w"
  "now (hideElement i w) = now w"
  "elements (hideElement i w) = (elements w)(i := (elements w i)\<lparr>mv_blocked := True\<rparr>)"
  "hideTimers (hideElement i w) = (if showBlocked (settings w) then hideTimers w else hideTimers w @ [i])"
  by (simp_all add: hideElement_def Let_def)

lemma unhideElement_fields [simp]:
  "settings (unhideElement i w) = settings w"
  "matchers (unhideElement i w) = matchers w"
  "cache (unhideElement i w) = cache w"
  "scanTimer (unhideElement i w) = scanTimer w"
  "scanEpoch (unhideElement i w) = scanEpoch w"
  "debugState (unhideElement i w) = debugState w"
  "now (unhideElement i w) = now w"
  "hideTimers (unhideElement i w) = hideTimers w"
  "elements (unhideElement i w) = (elements w)(i := (elements w i)\<lparr>mv_hidden := False, mv_blocked := False\<rparr>)"
  by (simp_all add: unhideElement_def)

lemma extractVideoData_dom:
  assumes "dom_title a = dom_title b" "dom_href a = dom_href b" "dom_channel a = dom_channel b"
    "dom_durationText a = dom_durationText b" "dom_videoId a = dom_videoId b"
  shows "extractVideoData a = extractVideoData b"
  using assms by (simp add: extractVideoData_def Let_def)

lemma extractVideoData_dataset [simp]:
  "extractVideoData (e\<lparr>mvEpoch := a\<rparr>) = extractVideoData e"
  by (rule extractVideoData_dom) simp_all

lemma decideCandidate_frame:
  "scanEpoch (snd (decideCandidate pg i data w)) = scanEpoch w"
  "scanTimer (snd (decideCandidate pg i data w)) = scanTimer w"
  "settings (snd (decideCandidate pg i data w)) = settings w"
  "matchers (snd (decideCandidate pg i data w)) = matchers w"
  "now (snd (decideCandidate pg i data w)) = now w"
  by (simp_all add: decideCandidate_def Let_def split: option.splits)

lemma processCandidate_frame:
  "scanEpoch (snd (processCandidate pg i ctx w)) = scanEpoch w"
  "scanTimer (snd (processCandidate pg i ctx w)) = scanTimer w"
  "settings (snd (processCandidate pg i ctx w)) = settings w"
  "matchers (snd (processCandidate pg i ctx w)) = matchers w"
  "now (snd (processCandidate pg i ctx w)) = now w"
  by (simp_all add: processCandidate_def Let_def decideCandidate_frame)



lemma decideCandidate_outcome:
  "fst (decideCandidate pg i data w) =
     (case (if truthy (cacheKey data)
            then fst (cacheGet (cacheKey data) (now w) (cache w)) else None) of
        Some cached \<Rightarrow> CacheHit cached
      | None \<Rightarrow> Classified (classifyVideo (settings w) (matchers w) data))"
  by (simp add: decideCandidate_def Let_def split: option.splits)

lemma decideCandidate_cache:
  "cache (snd (decideCandidate pg i data w)) =
     (if truthy (cacheKey data)
      then (case fst (cacheGet (cacheKey data) (now w) (cache w)) of
              Some cached \<Rightarrow> snd (cacheGet (cacheKey data) (now w) (cache w))
            | None \<Rightarrow> cacheSet (cacheKey data)
                        (result_isMusic (classifyVideo (settings w) (matchers w) data))
                        (now w) (cache w))
      else cache w)"
proof (cases "truthy (cacheKey data)")
  case False
  then show ?thesis by (simp add: decideCandidate_def Let_def)
next
  case True
  show ?thesis
  proof (cases "fst (cacheGet (cacheKey data) (now w) (cache w))")
    case None
    then have "snd (cacheGet (cacheKey data) (now w) (cache w)) = cache w"
      by (simp add: cacheGet_def split: if_splits option.splits)
    then show ?thesis using True None by (simp add: decideCandidate_def Let_def)
  next
    case (Some c)
    then show ?thesis using True by (simp add: decideCandidate_def Let_def)
  qed
qed

lemma decideCandidate_other_elements:
  "j \<noteq> i \<Longrightarrow> elements (snd (decideCandidate pg i data w)) j = elements w j"
  by (simp add: decideCandidate_def Let_def split: option.splits)

lemma processCandidate_outcome:
  "fst (processCandidate pg i ctx w) =
     (let el = elements w i; data = extractVideoData el
      in if mvEpoch el = Some (scanEpoch w) then SkippedEpoch
         else if title data = [] \<and> \<not> truthy (videoId data) then SkippedNoData
         else if ctx \<noteq> ''watch-sidebar''
                 \<and> \<not> (truthy (currentWatchVideoId pg) \<and> mvWatchId el \<noteq> currentWatchVideoId pg)
                 \<and> mvProcessed el = Some ''1''
                 \<and> (case mvKey el of None \<Rightarrow> [] | Some k \<Rightarrow> k) = elementKey data
         then SkippedProcessed
         else (case (if truthy (cacheKey data)
                     then fst (cacheGet (cacheKey data) (now w) (cache w)) else None) of
                 Some cached \<Rightarrow> CacheHit cached
               | None \<Rightarrow> Classified (classifyVideo (settings w) (matchers w) data)))"
  by (simp add: processCandidate_def Let_def decideCandidate_outcome cong: option.case_cong)
    blast

lemma processCandidate_cache:
  "cache (snd (processCandidate pg i ctx w)) =
     (case fst (processCandidate pg i ctx w) of
        CacheHit cached \<Rightarrow>
          snd (cacheGet (cacheKey (extractVideoData (elements w i))) (now w) (cache w))
      | Classified r \<Rightarrow>
          (if truthy (cacheKey (extractVideoData (elements w i)))
           then cacheSet (cacheKey (extractVideoData (elements w i))) (result_isMusic r) (now w) (cache w)
           else cache w)
      | _ \<Rightarrow> cache w)"
  by (simp add: processCandidate_def Let_def decideCandidate_outcome decideCandidate_cache
      split: option.splits)

lemma processCandidate_other_elements:
  "j \<noteq> i \<Longrightarrow> elements (snd (processCandidate pg i ctx w)) j = elements w j"
  by (simp add: processCandidate_def Let_def decideCandidate_other_elements)


lemma candidates_fold_frame:
  "scanEpoch (foldl (\<lambda>v i. snd (processCandidate pg i ctx v)) w cands) = scanEpoch w"
  "scanTimer (foldl (\<lambda>v i. snd (processCandidate pg i ctx v)) w cands) = scanTimer w"
  "settings (foldl (\<lambda>v i. snd (processCandidate pg i ctx v)) w cands) = settings w"
  "matchers (foldl (\<lambda>v i. snd (processCandidate pg i ctx v)) w cands) = matchers w"
  "now (foldl (\<lambda>v i. snd (processCandidate pg i ctx v)) w cands) = now w"
  by (induction cands arbitrary: w) (simp_all add: processCandidate_frame)

lemma processTarget_frame:
  "scanEpoch (processTarget pg w target) = scanEpoch w"
  "scanTimer (processTarget pg w target) = scanTimer w"
  "settings (processTarget pg w target) = settings w"
  "matchers (processTarget pg w target) = matchers w"
  "now (processTarget pg w target) = now w"
  by (simp_all add: processTarget_def Let_def candidates_fold_frame)

lemma targets_fold_frame:
  "scanEpoch (foldl (processTarget pg) w tgs) = scanEpoch w"
  "scanTimer (foldl (processTarget pg) w tgs) = scanTimer w"
  "settings (foldl (processTarget pg) w tgs) = settings w"
  "matchers (foldl (processTarget pg) w tgs) = matchers w"
  "now (foldl (processTarget pg) w tgs) = now w"
  by (induction tgs arbitrary: w) (simp_all add: processTarget_frame)

lemma scanNow_frame:
  "scanEpoch (scanNow pg w) = scanEpoch w + 1"
  "scanTimer (scanNow pg w) = scanTimer w"
  "settings (scanNow pg w) = settings w"
  "matchers (scanNow pg w) = matchers w"
  "now (scanNow pg w) = now w"
  by (simp_all add: scanNow_def Let_def targets_fold_frame)

lemma clearCandidate_frame:
  "cache (clearCandidate w i) = cache w"
  "scanEpoch (clearCandidate w i) = scanEpoch w"
  "scanTimer (clearCandidate w i) = scanTimer w"
  "settings (clearCandidate w i) = settings w"
  "matchers (clearCandidate w i) = matchers w"
  "now (clearCandidate w i) = now w"
  "debugState (clearCandidate w i) = debugState w"
  "hideTimers (clearCandidate w i) = hideTimers w"
  by (simp_all add: clearCandidate_def)

lemma clearCandidates_frame:
  "cache (foldl clearCandidate w cands) = cache w"
  "scanEpoch (foldl clearCandidate w cands) = scanEpoch w"
  "scanTimer (foldl clearCandidate w cands) = scanTimer w"
  "settings (foldl clearCandidate w cands) = settings w"
  "matchers (foldl clearCandidate w cands) = matchers w"
  "now (foldl clearCandidate w cands) = now w"
  "debugState (foldl clearCandidate w cands) = debugState w"
  "hideTimers (foldl clearCandidate w cands) = hideTimers w"
  by (induction cands arbitrary: w) (simp_all add: clearCandidate_frame)

lemma clearTargets_fold_frame:
  "cache (foldl (\<lambda>v target. foldl clearCandidate v (snd target)) w tgs) = cache w"
  "scanEpoch (foldl (\<lambda>v target. foldl clearCandidate v (snd target)) w tgs) = scanEpoch w"
  "scanTimer (foldl (\<lambda>v target. foldl clearCandidate v (snd target)) w tgs) = scanTimer w"
  "settings (foldl (\<lambda>v target. foldl clearCandidate v (snd target)) w tgs) = settings w"
  "matchers (foldl (\<lambda>v target. foldl clearCandidate v (snd target)) w tgs) = matchers w"
  "now (foldl (\<lambda>v target. foldl clearCandidate v (snd target)) w tgs) = now w"
  "debugState (foldl (\<lambda>v target. foldl clearCandidate v (snd target)) w tgs) = debugState w"
  "hideTimers (foldl (\<lambda>v target. foldl clearCandidate v (snd target)) w tgs) = hideTimers w"
  by (induction tgs arbitrary: w) (simp_all add: clearCandidates_frame)

lemma clearTargets_frame:
  "cache (clearTargets pg w) = cache w"
  "scanEpoch (clearTargets pg w) = scanEpoch w"
  "scanTimer (clearTargets pg w) = scanTimer w"
  "settings (clearTargets pg w) = settings w"
  "matchers (clearTargets pg w) = matchers w"
  "now (clearTargets pg w) = now w"
  "debugState (clearTargets pg w) = debugState w"
  "hideTimers (clearTargets pg w) = hideTimers w"
  by (simp_all add: clearTargets_def clearTargets_fold_frame)

lemma rescanAll_frame:
  "scanEpoch (rescanAll pg w) = scanEpoch w + 1"
  "scanTimer (rescanAll pg w) = scanTimer w"
  by (simp_all add: rescanAll_def scanNow_frame clearTargets_frame)

lemma scheduleScan_pending: "scanTimer w \<noteq> None \<Longrightarrow> scheduleScan w = w"
  by (simp add: scheduleScan_def)

lemma scheduleScan_sets: "scanTimer (scheduleScan w) \<noteq> None"
  by (simp add: scheduleScan_def)

lemma scheduleScan_epoch: "scanEpoch (scheduleScan w) = scanEpoch w"
  by (simp add: scheduleScan_def)

lemma run_Cons: "run (e # evs) w = run evs (step w e)"
  by (simp add: run_def)

lemma run_append: "run (evs @ evs') w = run evs' (run evs w)"
  by (simp add: run_def)

lemma burst_pending:
  "scanTimer w \<noteq> None \<Longrightarrow> run (replicate n Signal) w = w"
  by (induction n) (simp_all add: run_def scheduleScan_pending)

lemma burst_pending_counts:
  "scanTimer w \<noteq> None \<Longrightarrow> timers_set (replicate n Signal) w = 0"
  by (induction n) (simp_all add: scheduleScan_pending)

lemma burst_scans: "executed_scans (replicate n Signal) w = 0"
  by (induction n arbitrary: w) simp_all

lemma burst_idle:
  assumes "scanTimer w = None"
  shows "run (replicate (Suc n) Signal) w = w\<lparr>scanTimer := Some (debounce_delay (settings w))\<rparr>"
    and "timers_set (replicate (Suc n) Signal) w = 1"
proof -
  have s: "scheduleScan w = w\<lparr>scanTimer := Some (debounce_delay (settings w))\<rparr>"
    using assms by (simp add: scheduleScan_def)
  have p: "scanTimer (scheduleScan w) \<noteq> None" by (rule scheduleScan_sets)
  show "run (replicate (Suc n) Signal) w = w\<lparr>scanTimer := Some (debounce_delay (settings w))\<rparr>"
    using burst_pending [OF p, of n] s by (simp add: run_Cons)
  show "timers_set (replicate (Suc n) Signal) w = 1"
    using burst_pending_counts [OF p, of n] assms by simp
qed

lemma step_epoch:
  "scanEpoch (step w e) = scanEpoch w + executed_scans [e] w"
  by (cases e) (simp_all add: scheduleScan_epoch scanNow_frame rescanAll_frame)

lemma executed_scans_Cons:
  "executed_scans (e # evs) w = executed_scans [e] w + executed_scans evs (step w e)"
  by (cases e) simp_all

lemma run_epoch: "scanEpoch (run evs w) = scanEpoch w + executed_scans evs w"
proof (induction evs arbitrary: w)
  case Nil
  show ?case by (simp add: run_def)
next
  case (Cons e evs)
  have "scanEpoch (run (e # evs) w) = scanEpoch (step w e) + executed_scans evs (step w e)"
    by (simp add: run_Cons Cons.IH)
  also have "\<dots> = scanEpoch w + executed_scans [e] w + executed_scans evs (step w e)"
    by (simp only: step_epoch)
  also have "\<dots> = scanEpoch w + executed_scans (e # evs) w"
    using executed_scans_Cons [of e evs w] by simp
  finally show ?case .
qed

lemma burst_then_fire:
  "scanEpoch (run (replicate (Suc n) Signal @ [TimerFires pg, TimerFires pg']) w) = scanEpoch w + 1"
  "scanTimer (run (replicate (Suc n) Signal @ [TimerFires pg, TimerFires pg']) w) = None"
proof -
  let ?v = "run (replicate (Suc n) Signal) w"
  have v: "scanTimer ?v \<noteq> None \<and> scanEpoch ?v = scanEpoch w"
  proof (cases "scanTimer w = None")
    case True
    then show ?thesis using burst_idle(1) [OF True, of n] by simp
  next
    case False
    then show ?thesis using burst_pending [OF False, of "Suc n"] by simp
  qed
  let ?u = "step ?v (TimerFires pg)"
  have u: "scanTimer ?u = None" "scanEpoch ?u = scanEpoch w + 1"
    using v by (simp_all add: scanNow_frame)
  have "run (replicate (Suc n) Signal @ [TimerFires pg, TimerFires pg']) w = step ?u (TimerFires pg')"
    by (simp only: run_append) (simp add: run_def)
  also have "\<dots> = ?u" using u(1) by simp
  finally show "scanEpoch (run (replicate (Suc n) Signal @ [TimerFires pg, TimerFires pg']) w) = scanEpoch w + 1"
    "scanTimer (run (replicate (Suc n) Signal @ [TimerFires pg, TimerFires pg']) w) = None"
    using u by simp_all
qed

text \<open>
  Claim C8. The scheduler is single-flight. While a scan is pending, \<open>scheduleScan\<close>
  changes nothing, so a burst of signals sets no further timer; from the idle state a
  burst of any length sets exactly one timer. A signal never executes a scan and never
  changes the epoch; each executed scan adds exactly one to the epoch; a burst followed
  by the timer firing executes one scan, and a second firing without a new signal
  does nothing. Over any sequence of events the epoch grows by exactly the number of
  executed scans, so it never decreases.
\<close>

theorem single_flight_scheduler:
  "(scanTimer w \<noteq> None \<longrightarrow>
      scheduleScan w = w \<and> run (replicate n Signal) w = w
      \<and> timers_set (replicate n Signal) w = 0)
   \<and> (scanTimer w = None \<longrightarrow>
      run (replicate (Suc n) Signal) w = w\<lparr>scanTimer := Some (debounce_delay (settings w))\<rparr>
      \<and> timers_set (replicate (Suc n) Signal) w = 1)
   \<and> executed_scans (replicate n Signal) w = 0
   \<and> scanEpoch (run (replicate n Signal) w) = scanEpoch w
   \<and> scanEpoch (scheduleScan w) = scanEpoch w
   \<and> scanEpoch (scanNow pg w) = scanEpoch w + 1
   \<and> scanEpoch (run (replicate (Suc n) Signal @ [TimerFires pg, TimerFires pg']) w) = scanEpoch w + 1
   \<and> scanEpoch (run evs w) = scanEpoch w + executed_scans evs w
   \<and> scanEpoch w \<le> scanEpoch (run evs w)"
proof -
  have a: "scanTimer w \<noteq> None \<longrightarrow>
      scheduleScan w = w \<and> run (replicate n Signal) w = w
      \<and> timers_set (replicate n Signal) w = 0"
    by (simp add: scheduleScan_pending burst_pending burst_pending_counts)
  have b: "scanTimer w = None \<longrightarrow>
      run (replicate (Suc n) Signal) w = w\<lparr>scanTimer := Some (debounce_delay (settings w))\<rparr>
      \<and> timers_set (replicate (Suc n) Signal) w = 1"
    using burst_idle [of w n] by blast
  have c: "scanEpoch (run (replicate n Signal) w) = scanEpoch w"
    by (simp add: run_epoch burst_scans)
  have d: "scanEpoch w \<le> scanEpoch (run evs w)"
    by (simp add: run_epoch)
  from a b c d burst_scans [of n w] scheduleScan_epoch [of w] scanNow_frame(1) [of pg w]
    burst_then_fire(1) [of n pg pg' w] run_epoch [of evs w]
  show ?thesis by blast
qed


theorem single_flight_scheduler_witness:
  "scanTimer (title_world ''Song'') = None
   \<and> run (replicate 3 Signal) (title_world ''Song'') = (title_world ''Song'')\<lparr>scanTimer := Some 60\<rparr>
   \<and> timers_set (replicate 3 Signal) (title_world ''Song'') = 1
   \<and> scanTimer (scheduleScan (title_world ''Song'')) \<noteq> None
   \<and> run (replicate 2 Signal) (scheduleScan (title_world ''Song'')) = scheduleScan (title_world ''Song'')
   \<and> scanEpoch (run (replicate 3 Signal @ [TimerFires home_page, TimerFires home_page])
        (title_world ''Song'')) = 1"
proof -
  let ?w = "title_world ''Song''"
  have i: "scanTimer ?w = None" "scanEpoch ?w = 0" "debounce_delay (settings ?w) = 60"
    by (simp_all add: title_world_def initial_world_def debounce_delay_def keyword_settings_def)
  have p: "scanTimer (scheduleScan ?w) \<noteq> None" by (rule scheduleScan_sets)
  note A = single_flight_scheduler [where w = ?w and n = 2 and pg = home_page and pg' = home_page]
  note B = single_flight_scheduler [where w = "scheduleScan ?w" and n = 2]
  have n3: "replicate 3 Signal = replicate (Suc 2) Signal" by (simp add: numeral_3_eq_3)
  from A i(1) have a: "run (replicate (Suc 2) Signal) ?w = ?w\<lparr>scanTimer := Some (debounce_delay (settings ?w))\<rparr>
      \<and> timers_set (replicate (Suc 2) Signal) ?w = 1"
    by blast
  from A have c: "scanEpoch (run (replicate (Suc 2) Signal @ [TimerFires home_page, TimerFires home_page]) ?w)
      = scanEpoch ?w + 1"
    by blast
  from B p have b: "run (replicate 2 Signal) (scheduleScan ?w) = scheduleScan ?w" by blast
  from a b c p i show ?thesis by (simp only: n3) simp
qed

lemma elementKey_nonempty:
  assumes "\<not> (title (extractVideoData e) = [] \<and> \<not> truthy (videoId (extractVideoData e)))"
  shows "elementKey (extractVideoData e) \<noteq> []"
proof (cases "truthy (dom_videoId e)")
  case True
  then show ?thesis by (simp add: elementKey_def extractVideoData_def Let_def truthy_def)
next
  case False
  then have "dom_title e \<noteq> []" using assms by (simp add: extractVideoData_def Let_def)
  then show ?thesis using False
    by (simp add: elementKey_def extractVideoData_def Let_def truthy_def)
qed

lemma long_key_has_data:
  assumes "length (elementKey (extractVideoData e)) > 200"
  shows "\<not> (title (extractVideoData e) = [] \<and> \<not> truthy (videoId (extractVideoData e)))"
proof
  assume a: "title (extractVideoData e) = [] \<and> \<not> truthy (videoId (extractVideoData e))"
  then have "dom_title e = []" "\<not> truthy (dom_videoId e)"
    by (simp_all add: extractVideoData_def Let_def)
  then have "elementKey (extractVideoData e) = []"
    by (simp add: elementKey_def extractVideoData_def Let_def normalizeText_def truthy_def)
  then show False using assms by simp
qed

lemma stored_key_differs:
  assumes "stored_key_ok e" "length key > 200"
  shows "(case mvKey e of None \<Rightarrow> [] | Some k \<Rightarrow> k) \<noteq> key"
  using assms by (auto simp: stored_key_ok_def split: option.splits)

lemma decideCandidate_mvKey:
  "mvKey (elements (snd (decideCandidate pg i data w)) i) =
     (if elementKey data \<noteq> [] then Some (take 200 (elementKey data)) else mvKey (elements w i))"
  by (simp add: decideCandidate_def Let_def split: option.splits)

lemma decideCandidate_mvProcessed:
  "mvProcessed (elements (snd (decideCandidate pg i data w)) i) = Some ''1''"
  by (simp add: decideCandidate_def Let_def split: option.splits)

lemma processCandidate_mvKey:
  "mvKey (elements (snd (processCandidate pg i ctx w)) i) = mvKey (elements w i)
   \<or> mvKey (elements (snd (processCandidate pg i ctx w)) i) = Some []
   \<or> mvKey (elements (snd (processCandidate pg i ctx w)) i)
        = Some (take 200 (elementKey (extractVideoData (elements w i))))"
  by (simp add: processCandidate_def Let_def decideCandidate_mvKey)

lemma processCandidate_decided_mvKey:
  assumes "fst (processCandidate pg i ctx w) = CacheHit c \<or> fst (processCandidate pg i ctx w) = Classified r"
  shows "mvKey (elements (snd (processCandidate pg i ctx w)) i)
        = Some (take 200 (elementKey (extractVideoData (elements w i))))"
    and "mvProcessed (elements (snd (processCandidate pg i ctx w)) i) = Some ''1''"
proof -
  have d: "\<not> (title (extractVideoData (elements w i)) = []
              \<and> \<not> truthy (videoId (extractVideoData (elements w i))))"
    using assms by (auto simp: processCandidate_outcome Let_def split: if_splits)
  have s: "snd (processCandidate pg i ctx w) =
     snd (decideCandidate pg i (extractVideoData (elements w i))
       (if truthy (currentWatchVideoId pg) \<and> mvWatchId (elements w i) \<noteq> currentWatchVideoId pg
        then update_element i (\<lambda>e. e\<lparr>mvProcessed := Some [], mvKey := Some [],
                                       mvWatchId := currentWatchVideoId pg\<rparr>)
               (update_element i (\<lambda>e. e\<lparr>mvEpoch := Some (scanEpoch w)\<rparr>) w)
        else update_element i (\<lambda>e. e\<lparr>mvEpoch := Some (scanEpoch w)\<rparr>) w))"
    using assms
    by (auto simp: processCandidate_def Let_def decideCandidate_outcome split: if_splits)
  show "mvKey (elements (snd (processCandidate pg i ctx w)) i)
        = Some (take 200 (elementKey (extractVideoData (elements w i))))"
    using elementKey_nonempty [OF d] by (simp only: s decideCandidate_mvKey) simp
  show "mvProcessed (elements (snd (processCandidate pg i ctx w)) i) = Some ''1''"
    by (simp only: s decideCandidate_mvProcessed)
qed

lemma processCandidate_stored_key_ok:
  assumes "\<forall>j. stored_key_ok (elements w j)"
  shows "\<forall>j. stored_key_ok (elements (snd (processCandidate pg i ctx w)) j)"
proof
  fix j
  show "stored_key_ok (elements (snd (processCandidate pg i ctx w)) j)"
  proof (cases "j = i")
    case False
    then show ?thesis using assms by (simp add: processCandidate_other_elements)
  next
    case True
    then show ?thesis
      using processCandidate_mvKey [of pg i ctx w] assms
      by (auto simp: stored_key_ok_def split: option.splits)
  qed
qed

lemma foldl_invariant:
  assumes "\<And>v x. P v \<Longrightarrow> P (f v x)" "P w"
  shows "P (foldl f w xs)"
  using assms(2) by (induction xs arbitrary: w) (simp_all add: assms(1))

lemma processTarget_stored_key_ok:
  assumes "\<forall>j. stored_key_ok (elements w j)"
  shows "\<forall>j. stored_key_ok (elements (processTarget pg w target) j)"
  unfolding processTarget_def Let_def
  by (rule foldl_invariant) (use assms in \<open>simp_all add: processCandidate_stored_key_ok\<close>)

lemma scanNow_stored_key_ok:
  assumes "\<forall>j. stored_key_ok (elements w j)"
  shows "\<forall>j. stored_key_ok (elements (scanNow pg w) j)"
  unfolding scanNow_def Let_def
  by (rule foldl_invariant) (use assms in \<open>simp_all add: processTarget_stored_key_ok\<close>)

lemma clearCandidate_stored_key_ok:
  assumes "\<forall>j. stored_key_ok (elements w j)"
  shows "\<forall>j. stored_key_ok (elements (clearCandidate w i) j)"
  using assms by (simp add: clearCandidate_def stored_key_ok_def)

lemma clearTargets_stored_key_ok:
  assumes "\<forall>j. stored_key_ok (elements w j)"
  shows "\<forall>j. stored_key_ok (elements (clearTargets pg w) j)"
  unfolding clearTargets_def
  by (rule foldl_invariant, rule foldl_invariant)
    (use assms in \<open>simp_all add: clearCandidate_stored_key_ok\<close>)

lemma rescanAll_stored_key_ok:
  assumes "\<forall>j. stored_key_ok (elements w j)"
  shows "\<forall>j. stored_key_ok (elements (rescanAll pg w) j)"
  unfolding rescanAll_def
  using assms by (intro scanNow_stored_key_ok clearTargets_stored_key_ok)

lemma step_stored_key_ok:
  assumes "\<forall>j. stored_key_ok (elements w j)"
  shows "\<forall>j. stored_key_ok (elements (step w e) j)"
proof (cases e)
  case Signal
  then show ?thesis using assms by (simp add: scheduleScan_def)
next
  case (TimerFires pg)
  have "\<forall>j. stored_key_ok (elements (w\<lparr>scanTimer := None\<rparr>) j)" using assms by simp
  then show ?thesis using TimerFires assms scanNow_stored_key_ok by simp
next
  case (Rescan pg)
  then show ?thesis using assms rescanAll_stored_key_ok by simp
qed

lemma run_stored_key_ok:
  assumes "\<forall>j. stored_key_ok (elements w j)"
  shows "\<forall>j. stored_key_ok (elements (run evs w) j)"
  unfolding run_def
  by (rule foldl_invariant) (use assms in \<open>simp_all add: step_stored_key_ok\<close>)

text \<open>
  Claim C10. The stored key is the computed key cut to 200 units, and the skip test
  compares it with the whole computed key. So for a node whose computed key is longer
  than 200 units (and whose stored key is one that this code wrote, or none), the visit
  never ends as skipped-because-processed, in any context: unless the node was already
  visited in this epoch it is decided again, from the cache or by the classifier, and
  the key stored afterwards again differs from the computed key. That stored keys have
  at most 200 units holds for fresh nodes and is kept by every visit, scan, rescan and
  sequence of events.
\<close>

theorem truncated_key_never_skips:
  "(stored_key_ok (elements w i) \<and> length (elementKey (extractVideoData (elements w i))) > 200
      \<longrightarrow> fst (processCandidate pg i ctx w) \<noteq> SkippedProcessed
        \<and> fst (processCandidate pg i ctx w) \<noteq> SkippedNoData
        \<and> (mvEpoch (elements w i) \<noteq> Some (scanEpoch w) \<longrightarrow>
             ((\<exists>cached. fst (processCandidate pg i ctx w) = CacheHit cached)
              \<or> (\<exists>r. fst (processCandidate pg i ctx w) = Classified r))
             \<and> mvKey (elements (snd (processCandidate pg i ctx w)) i)
                 = Some (take 200 (elementKey (extractVideoData (elements w i))))
             \<and> mvKey (elements (snd (processCandidate pg i ctx w)) i)
                 \<noteq> Some (elementKey (extractVideoData (elements w i)))))
   \<and> ((\<forall>j. stored_key_ok (elements w j)) \<longrightarrow>
        (\<forall>j. stored_key_ok (elements (snd (processCandidate pg i ctx w)) j))
        \<and> (\<forall>j. stored_key_ok (elements (scanNow pg w) j))
        \<and> (\<forall>j. stored_key_ok (elements (rescanAll pg w) j))
        \<and> (\<forall>j. stored_key_ok (elements (run evs w) j)))
   \<and> stored_key_ok (fresh_node t ch dur vid)"
proof -
  let ?el = "elements w i" and ?o = "fst (processCandidate pg i ctx w)"
  let ?key = "elementKey (extractVideoData ?el)"
  have a: "?o \<noteq> SkippedProcessed \<and> ?o \<noteq> SkippedNoData
        \<and> (mvEpoch ?el \<noteq> Some (scanEpoch w) \<longrightarrow>
             ((\<exists>cached. ?o = CacheHit cached) \<or> (\<exists>r. ?o = Classified r))
             \<and> mvKey (elements (snd (processCandidate pg i ctx w)) i) = Some (take 200 ?key)
             \<and> mvKey (elements (snd (processCandidate pg i ctx w)) i) \<noteq> Some ?key)"
    if h: "stored_key_ok ?el" "length ?key > 200"
  proof -
    note d = long_key_has_data [OF h(2)]
    note k = stored_key_differs [OF h]
    have 1: "?o \<noteq> SkippedProcessed \<and> ?o \<noteq> SkippedNoData"
      using d k by (auto simp add: processCandidate_outcome Let_def split: option.splits)
    have 2: "(\<exists>cached. ?o = CacheHit cached) \<or> (\<exists>r. ?o = Classified r)"
      if "mvEpoch ?el \<noteq> Some (scanEpoch w)"
      using d k that by (auto simp add: processCandidate_outcome Let_def split: option.splits)
    have 3: "mvKey (elements (snd (processCandidate pg i ctx w)) i) = Some (take 200 ?key)"
      if "mvEpoch ?el \<noteq> Some (scanEpoch w)"
      using 2 [OF that] processCandidate_decided_mvKey(1) [of pg i ctx w] by blast
    have "take 200 ?key \<noteq> ?key" using h(2) by (metis length_take min.absorb4 nat_neq_iff)
    with 1 2 3 show ?thesis by auto
  qed
  have b: "(\<forall>j. stored_key_ok (elements w j)) \<longrightarrow>
        (\<forall>j. stored_key_ok (elements (snd (processCandidate pg i ctx w)) j))
        \<and> (\<forall>j. stored_key_ok (elements (scanNow pg w) j))
        \<and> (\<forall>j. stored_key_ok (elements (rescanAll pg w) j))
        \<and> (\<forall>j. stored_key_ok (elements (run evs w) j))"
    using processCandidate_stored_key_ok scanNow_stored_key_ok rescanAll_stored_key_ok
      run_stored_key_ok by blast
  have c: "stored_key_ok (fresh_node t ch dur vid)"
    by (simp add: stored_key_ok_def fresh_node_def)
  from a b c show ?thesis by blast
qed

lemma pc_epoch:
  "mvEpoch (elements w i) = Some (scanEpoch w) \<Longrightarrow> processCandidate pg i ctx w = (SkippedEpoch, w)"
  by (simp add: processCandidate_def)

lemma pc_no_data:
  assumes "mvEpoch (elements w i) \<noteq> Some (scanEpoch w)" "no_data (elements w i)"
  shows "processCandidate pg i ctx w =
     (SkippedNoData,
      if debugMode (settings w)
      then update_debug (\<lambda>d. d\<lparr>skippedNoData := skippedNoData d + 1\<rparr>) (visit i w)
      else visit i w)"
proof -
  have "title (extractVideoData (elements w i)) = []" "\<not> truthy (videoId (extractVideoData (elements w i)))"
    using assms(2) by (simp_all add: no_data_def)
  then show ?thesis using assms(1) by (simp add: processCandidate_def Let_def visit_def)
qed

lemma pc_skip:
  assumes "mvEpoch (elements w i) \<noteq> Some (scanEpoch w)" "\<not> no_data (elements w i)"
    "skip_applies pg ctx (elements w i)"
  shows "processCandidate pg i ctx w =
     (SkippedProcessed,
      if debugMode (settings w)
      then update_debug (\<lambda>d. d\<lparr>skippedProcessed := skippedProcessed d + 1\<rparr>) (visit i w)
      else visit i w)"
proof -
  have d: "\<not> (title (extractVideoData (elements w i)) = [] \<and> \<not> truthy (videoId (extractVideoData (elements w i))))"
    using assms(2) by (simp add: no_data_def)
  have s: "ctx \<noteq> ''watch-sidebar''"
    "\<not> (truthy (currentWatchVideoId pg) \<and> mvWatchId (elements w i) \<noteq> currentWatchVideoId pg)"
    "mvProcessed (elements w i) = Some ''1''"
    "(case mvKey (elements w i) of None \<Rightarrow> [] | Some k \<Rightarrow> k) = elementKey (extractVideoData (elements w i))"
    using assms(3) by (simp_all add: skip_applies_def)
  have w2: "(if truthy (currentWatchVideoId pg)
                \<and> mvWatchId (elements (visit i w) i) \<noteq> currentWatchVideoId pg
             then update_element i (\<lambda>e. e\<lparr>mvProcessed := Some [], mvKey := Some [],
                                           mvWatchId := currentWatchVideoId pg\<rparr>) (visit i w)
             else visit i w) = visit i w"
    using s(2) by (auto simp add: visit_def)
  have e: "mvProcessed (elements (visit i w) i) = Some ''1''"
    "(case mvKey (elements (visit i w) i) of None \<Rightarrow> [] | Some k \<Rightarrow> k)
       = elementKey (extractVideoData (elements (visit i w) i))"
    "settings (visit i w) = settings w"
    using s(3,4) by (simp_all add: visit_def)
  have x: "extractVideoData (elements (visit i w) i) = extractVideoData (elements w i)"
    by (simp add: visit_def)
  show ?thesis
    unfolding processCandidate_def Let_def visit_def [symmetric]
    by (simp only: assms(1) if_False x d w2 s(1) e simp_thms if_True)
qed

lemma pc_decide:
  assumes "mvEpoch (elements w i) \<noteq> Some (scanEpoch w)" "\<not> no_data (elements w i)"
    "\<not> skip_applies pg ctx (elements w i)"
  shows "processCandidate pg i ctx w =
     decideCandidate pg i (extractVideoData (elements w i)) (watch_reset pg i (visit i w))"
proof -
  have d: "\<not> (title (extractVideoData (elements w i)) = [] \<and> \<not> truthy (videoId (extractVideoData (elements w i))))"
    using assms(2) by (simp add: no_data_def)
  have x: "extractVideoData (elements (visit i w) i) = extractVideoData (elements w i)"
    by (simp add: visit_def)
  have k: "mvKey (elements (visit i w) i) = mvKey (elements w i)" by (simp add: visit_def)
  have n: "\<not> (ctx \<noteq> ''watch-sidebar''
       \<and> mvProcessed (elements (watch_reset pg i (visit i w)) i) = Some ''1''
       \<and> (case mvKey (elements (visit i w) i) of None \<Rightarrow> [] | Some k \<Rightarrow> k)
            = elementKey (extractVideoData (elements w i)))"
  proof (cases "truthy (currentWatchVideoId pg) \<and> mvWatchId (elements w i) \<noteq> currentWatchVideoId pg")
    case True
    then have "mvProcessed (elements (watch_reset pg i (visit i w)) i) = Some []"
      by (simp add: watch_reset_def visit_def)
    then show ?thesis by simp
  next
    case False
    then have "mvProcessed (elements (watch_reset pg i (visit i w)) i) = mvProcessed (elements w i)"
      by (auto simp add: watch_reset_def visit_def)
    then show ?thesis using assms(3) False by (simp add: skip_applies_def k)
  qed
  show ?thesis
    unfolding processCandidate_def Let_def visit_def [symmetric] watch_reset_def [symmetric]
    by (simp only: assms(1) if_False x d n)
qed


lemma decideCandidate_dom:
  "dom_title (elements (snd (decideCandidate pg i data w)) j) = dom_title (elements w j)"
  "dom_href (elements (snd (decideCandidate pg i data w)) j) = dom_href (elements w j)"
  "dom_channel (elements (snd (decideCandidate pg i data w)) j) = dom_channel (elements w j)"
  "dom_durationText (elements (snd (decideCandidate pg i data w)) j) = dom_durationText (elements w j)"
  "dom_videoId (elements (snd (decideCandidate pg i data w)) j) = dom_videoId (elements w j)"
  "mvEpoch (elements (snd (decideCandidate pg i data w)) j) = mvEpoch (elements w j)"
  by (simp_all add: decideCandidate_def Let_def split: option.splits)

lemma decideCandidate_mvWatchId:
  "mvWatchId (elements (snd (decideCandidate pg i data w)) i) =
     (if truthy (currentWatchVideoId pg) then currentWatchVideoId pg else mvWatchId (elements w i))"
  by (simp add: decideCandidate_def Let_def split: option.splits)

lemma decideCandidate_scanned:
  "scanned (debugState (snd (decideCandidate pg i data w))) =
     scanned (debugState w) + (case fst (decideCandidate pg i data w) of Classified r \<Rightarrow> 1 | _ \<Rightarrow> 0)"
  by (simp add: decideCandidate_def Let_def split: option.splits)

lemma decideCandidate_decides:
  "(\<exists>c. fst (decideCandidate pg i data w) = CacheHit c)
   \<or> (\<exists>r. fst (decideCandidate pg i data w) = Classified r)"
  by (simp add: decideCandidate_outcome split: option.splits)

lemma visit_fields [simp]:
  "settings (visit i w) = settings w"
  "matchers (visit i w) = matchers w"
  "cache (visit i w) = cache w"
  "scanEpoch (visit i w) = scanEpoch w"
  "debugState (visit i w) = debugState w"
  "hideTimers (visit i w) = hideTimers w"
  "now (visit i w) = now w"
  "elements (visit i w) = (elements w)(i := (elements w i)\<lparr>mvEpoch := Some (scanEpoch w)\<rparr>)"
  by (simp_all add: visit_def)

lemma watch_reset_fields [simp]:
  "settings (watch_reset pg i w) = settings w"
  "matchers (watch_reset pg i w) = matchers w"
  "cache (watch_reset pg i w) = cache w"
  "scanEpoch (watch_reset pg i w) = scanEpoch w"
  "debugState (watch_reset pg i w) = debugState w"
  "hideTimers (watch_reset pg i w) = hideTimers w"
  "now (watch_reset pg i w) = now w"
  by (simp_all add: watch_reset_def)

lemma watch_reset_dom:
  "dom_title (elements (watch_reset pg i w) j) = dom_title (elements w j)"
  "dom_href (elements (watch_reset pg i w) j) = dom_href (elements w j)"
  "dom_channel (elements (watch_reset pg i w) j) = dom_channel (elements w j)"
  "dom_durationText (elements (watch_reset pg i w) j) = dom_durationText (elements w j)"
  "dom_videoId (elements (watch_reset pg i w) j) = dom_videoId (elements w j)"
  "mvEpoch (elements (watch_reset pg i w) j) = mvEpoch (elements w j)"
  by (simp_all add: watch_reset_def)

text \<open>The four ways through \<open>processCandidate\<close>, as one case distinction.\<close>

lemma processCandidate_cases:
  obtains (epoch) "mvEpoch (elements w i) = Some (scanEpoch w)"
      "processCandidate pg i ctx w = (SkippedEpoch, w)"
  | (no_data) "mvEpoch (elements w i) \<noteq> Some (scanEpoch w)" "no_data (elements w i)"
      "processCandidate pg i ctx w =
        (SkippedNoData,
         if debugMode (settings w)
         then update_debug (\<lambda>d. d\<lparr>skippedNoData := skippedNoData d + 1\<rparr>) (visit i w)
         else visit i w)"
  | (skip) "mvEpoch (elements w i) \<noteq> Some (scanEpoch w)" "\<not> no_data (elements w i)"
      "skip_applies pg ctx (elements w i)"
      "processCandidate pg i ctx w =
        (SkippedProcessed,
         if debugMode (settings w)
         then update_debug (\<lambda>d. d\<lparr>skippedProcessed := skippedProcessed d + 1\<rparr>) (visit i w)
         else visit i w)"
  | (decide) "mvEpoch (elements w i) \<noteq> Some (scanEpoch w)" "\<not> no_data (elements w i)"
      "\<not> skip_applies pg ctx (elements w i)"
      "processCandidate pg i ctx w =
         decideCandidate pg i (extractVideoData (elements w i)) (watch_reset pg i (visit i w))"
  using pc_epoch [of w i pg ctx] pc_no_data [of w i pg ctx] pc_skip [of w i pg ctx]
    pc_decide [of w i pg ctx]
  by blast

lemma processCandidate_dom:
  "dom_title (elements (snd (processCandidate pg i ctx w)) j) = dom_title (elements w j)"
  "dom_href (elements (snd (processCandidate pg i ctx w)) j) = dom_href (elements w j)"
  "dom_channel (elements (snd (processCandidate pg i ctx w)) j) = dom_channel (elements w j)"
  "dom_durationText (elements (snd (processCandidate pg i ctx w)) j) = dom_durationText (elements w j)"
  "dom_videoId (elements (snd (processCandidate pg i ctx w)) j) = dom_videoId (elements w j)"
  by (cases rule: processCandidate_cases [of w i pg ctx];
      simp add: decideCandidate_dom watch_reset_dom)+

lemma processCandidate_extract:
  "extractVideoData (elements (snd (processCandidate pg i ctx w)) j) = extractVideoData (elements w j)"
  by (rule extractVideoData_dom) (simp_all add: processCandidate_dom)

lemma processCandidate_scanned:
  "scanned (debugState (snd (processCandidate pg i ctx w))) =
     scanned (debugState w) + (case fst (processCandidate pg i ctx w) of Classified r \<Rightarrow> 1 | _ \<Rightarrow> 0)"
  by (cases rule: processCandidate_cases [of w i pg ctx]) (simp_all add: decideCandidate_scanned)

lemma processCandidate_visited:
  "fst (processCandidate pg i ctx w) \<noteq> SkippedEpoch \<Longrightarrow>
   mvEpoch (elements (snd (processCandidate pg i ctx w)) i) = Some (scanEpoch w)"
  by (cases rule: processCandidate_cases [of w i pg ctx])
    (simp_all add: decideCandidate_dom watch_reset_dom)

lemma processCandidate_decided_mvWatchId:
  assumes "fst (processCandidate pg i ctx w) = CacheHit c \<or> fst (processCandidate pg i ctx w) = Classified r"
  shows "\<not> (truthy (currentWatchVideoId pg)
            \<and> mvWatchId (elements (snd (processCandidate pg i ctx w)) i) \<noteq> currentWatchVideoId pg)"
  using assms
  by (cases rule: processCandidate_cases [of w i pg ctx]) (auto simp: decideCandidate_mvWatchId)

lemma decision_has_data:
  assumes "fst (processCandidate pg i ctx w) = CacheHit c \<or> fst (processCandidate pg i ctx w) = Classified r"
  shows "\<not> no_data (elements w i)" "mvEpoch (elements w i) \<noteq> Some (scanEpoch w)"
  using assms by (cases rule: processCandidate_cases [of w i pg ctx]; simp)+

text \<open>The visit after a decision, in a later epoch and on the same page: skipped in a
  context that permits it when the key has at most 200 units, decided again when the
  key is longer.\<close>

lemma next_visit:
  assumes dec: "fst (processCandidate pg i ctx w) = CacheHit c
                \<or> fst (processCandidate pg i ctx w) = Classified r"
    and v: "elements v i = elements (snd (processCandidate pg i ctx w)) i"
      "scanEpoch v \<noteq> scanEpoch w"
  shows "length (elementKey (extractVideoData (elements w i))) \<le> 200 \<Longrightarrow>
           ctx' \<noteq> ''watch-sidebar'' \<Longrightarrow>
           processCandidate pg i ctx' v =
             (SkippedProcessed,
              if debugMode (settings v)
              then update_debug (\<lambda>d. d\<lparr>skippedProcessed := skippedProcessed d + 1\<rparr>) (visit i v)
              else visit i v)"
    and "length (elementKey (extractVideoData (elements w i))) > 200 \<Longrightarrow>
           processCandidate pg i ctx' v =
             decideCandidate pg i (extractVideoData (elements w i)) (watch_reset pg i (visit i v))"
proof -
  let ?w' = "snd (processCandidate pg i ctx w)"
  let ?key = "elementKey (extractVideoData (elements w i))"
  have x: "extractVideoData (elements v i) = extractVideoData (elements w i)"
    by (simp add: v(1) processCandidate_extract)
  have nd: "\<not> no_data (elements v i)"
    using decision_has_data(1) [OF dec] by (simp add: no_data_def x)
  have "fst (processCandidate pg i ctx w) \<noteq> SkippedEpoch" using dec by auto
  then have "mvEpoch (elements v i) = Some (scanEpoch w)"
    by (simp add: v(1) processCandidate_visited)
  then have ep: "mvEpoch (elements v i) \<noteq> Some (scanEpoch v)" using v(2) by simp
  have k: "mvKey (elements v i) = Some (take 200 ?key)" "mvProcessed (elements v i) = Some ''1''"
    using processCandidate_decided_mvKey [OF dec] by (simp_all add: v(1))
  have wt: "\<not> (truthy (currentWatchVideoId pg) \<and> mvWatchId (elements v i) \<noteq> currentWatchVideoId pg)"
    using processCandidate_decided_mvWatchId [OF dec] by (simp add: v(1))
  have sk: "skip_applies pg ctx' (elements v i) = (ctx' \<noteq> ''watch-sidebar'' \<and> take 200 ?key = ?key)"
    using wt k by (simp add: skip_applies_def x)
  show "processCandidate pg i ctx' v =
             (SkippedProcessed,
              if debugMode (settings v)
              then update_debug (\<lambda>d. d\<lparr>skippedProcessed := skippedProcessed d + 1\<rparr>) (visit i v)
              else visit i v)"
    if "length ?key \<le> 200" "ctx' \<noteq> ''watch-sidebar''"
    using that sk pc_skip [OF ep nd, of pg ctx'] by simp
  show "processCandidate pg i ctx' v =
             decideCandidate pg i (extractVideoData (elements w i)) (watch_reset pg i (visit i v))"
    if "length ?key > 200"
  proof -
    have "take 200 ?key \<noteq> ?key" using that by (metis length_take min.absorb4 nat_neq_iff)
    then show ?thesis using sk pc_decide [OF ep nd, of pg ctx'] by (simp add: x)
  qed
qed

lemma scanNow_single:
  assumes "\<not> debugMode (settings w)" "targets pg = [(ctx, [i])]"
  shows "scanNow pg w = snd (processCandidate pg i ctx (w\<lparr>scanEpoch := scanEpoch w + 1\<rparr>))"
  using assms by (simp add: scanNow_def Let_def processTarget_def)

lemma replace_runs_replicate:
  "p c \<Longrightarrow> replace_runs p (replicate (Suc n) c) = '' ''"
  by (induction n) simp_all

lemma replace_runs_none:
  "\<forall>c\<in>set s. \<not> p c \<Longrightarrow> replace_runs p s = s"
  by (induction p s rule: replace_runs.induct) simp_all

lemma normalizeText_punctuation:
  "normalizeText (replicate (Suc n) CHR ''!'') = []"
proof -
  have l: "lower_char CHR ''!'' = CHR ''!''" by (simp add: lower_char_def)
  have p: "\<not> is_lower_alnum CHR ''!''" by (simp add: is_lower_alnum_def is_digit_def)
  have "toLowerCase (replicate (Suc n) CHR ''!'') = replicate (Suc n) CHR ''!''"
    by (simp only: toLowerCase_def map_replicate l)
  moreover have "replace_runs (\<lambda>c. \<not> is_lower_alnum c) (replicate (Suc n) CHR ''!'') = '' ''"
    using p by (intro replace_runs_replicate)
  moreover have "replace_runs is_space '' '' = '' ''" by (simp add: is_space_def)
  moreover have "trim '' '' = []" by (simp add: trim_def is_space_def)
  ultimately show ?thesis by (simp add: normalizeText_def)
qed

lemma punctuation_title_data:
  "title (extractVideoData (fresh_node (replicate (Suc n) CHR ''!'') [] [] None)) = replicate (Suc n) CHR ''!''"
  "videoId (extractVideoData (fresh_node (replicate (Suc n) CHR ''!'') [] [] None)) = None"
  "cacheKey (extractVideoData (fresh_node (replicate (Suc n) CHR ''!'') [] [] None)) = None"
  "elementKey (extractVideoData (fresh_node (replicate (Suc n) CHR ''!'') [] [] None)) = replicate (Suc n) CHR ''!''"
  by (simp_all add: extractVideoData_def fresh_node_def Let_def normalizeText_punctuation
      elementKey_def truthy_def del: replicate_Suc)

lemma title_world_fields:
  "settings (title_world t) = keyword_settings [] [] [] [] ''show''"
  "matchers (title_world t) = buildMatchers (keyword_settings [] [] [] [] ''show'')"
  "elements (title_world t) i = fresh_node t [] [] None"
  "scanEpoch (title_world t) = 0"
  "scanTimer (title_world t) = None"
  "cache (title_world t) = empty_cache"
  "scanned (debugState (title_world t)) = 0"
  "\<not> debugMode (settings (title_world t))"
  by (simp_all add: title_world_def initial_world_def keyword_settings_def)

lemma classify_without_keywords:
  "classifyVideo (keyword_settings [] [] [] [] ''show'')
     (buildMatchers (keyword_settings [] [] [] [] ''show'')) data
   = \<lparr>result_isMusic = True, reason = ''default''\<rparr>"
  by (simp add: classifyVideo_def Let_def buildMatchers_def keyword_settings_def normalizeList_def)

lemma fresh_node_fields:
  "mvEpoch (fresh_node t ch dur vid) = None"
  "mvProcessed (fresh_node t ch dur vid) = None"
  "mvKey (fresh_node t ch dur vid) = None"
  "mvWatchId (fresh_node t ch dur vid) = None"
  by (simp_all add: fresh_node_def)

text \<open>The first pass over a fresh tile of the home page with a title of punctuation only.\<close>

lemma punctuation_first_pass:
  fixes n :: nat
  defines "w0 \<equiv> title_world (replicate (Suc n) CHR ''!'')"
  shows "scanNow home_page w0 = snd (processCandidate home_page 0 ''home'' (w0\<lparr>scanEpoch := 1\<rparr>))"
    and "fst (processCandidate home_page 0 ''home'' (w0\<lparr>scanEpoch := 1\<rparr>))
           = Classified \<lparr>result_isMusic = True, reason = ''default''\<rparr>"
    and "scanned (debugState (scanNow home_page w0)) = 1"
    and "scanEpoch (scanNow home_page w0) = 1"
proof -
  let ?v = "w0\<lparr>scanEpoch := 1\<rparr>"
  let ?d = "extractVideoData (fresh_node (replicate (Suc n) CHR ''!'') [] [] None)"
  have el: "elements w0 0 = fresh_node (replicate (Suc n) CHR ''!'') [] [] None"
    by (simp add: w0_def title_world_fields)
  have dm: "\<not> debugMode (settings w0)" unfolding w0_def by (rule title_world_fields(8))
  have tg: "targets home_page = [(''home'', [0])]" by (simp add: home_page_def)
  show s: "scanNow home_page w0 = snd (processCandidate home_page 0 ''home'' ?v)"
    using scanNow_single [OF dm tg] by (simp add: w0_def title_world_fields(4))
  have ep: "mvEpoch (elements ?v 0) \<noteq> Some (scanEpoch ?v)" by (simp add: el fresh_node_fields)
  have nd: "\<not> no_data (elements ?v 0)"
    by (simp add: el no_data_def punctuation_title_data del: replicate_Suc)
  have ns: "\<not> skip_applies home_page ''home'' (elements ?v 0)"
    by (simp add: el skip_applies_def fresh_node_fields)
  have pc: "processCandidate home_page 0 ''home'' ?v
      = decideCandidate home_page 0 ?d (watch_reset home_page 0 (visit 0 ?v))"
    using pc_decide [OF ep nd ns] by (simp add: el)
  have "fst (processCandidate home_page 0 ''home'' ?v)
        = fst (decideCandidate home_page 0 ?d (watch_reset home_page 0 (visit 0 ?v)))"
    by (simp only: pc)
  also have "\<dots> = Classified (classifyVideo (settings w0) (matchers w0) ?d)"
    by (simp add: decideCandidate_outcome punctuation_title_data truthy_def del: replicate_Suc)
  also have "\<dots> = Classified \<lparr>result_isMusic = True, reason = ''default''\<rparr>"
    by (simp only: w0_def title_world_fields classify_without_keywords)
  finally show o: "fst (processCandidate home_page 0 ''home'' ?v)
           = Classified \<lparr>result_isMusic = True, reason = ''default''\<rparr>" .
  have "scanned (debugState (scanNow home_page w0)) = scanned (debugState ?v) + 1"
    by (simp only: s processCandidate_scanned o) simp
  then show "scanned (debugState (scanNow home_page w0)) = 1"
    by (simp add: w0_def title_world_fields)
  show "scanEpoch (scanNow home_page w0) = 1"
    by (simp add: scanNow_frame w0_def title_world_fields)
qed


text \<open>The second pass over the same tile: decided again when the title is longer than
  200 units, skipped otherwise.\<close>

lemma punctuation_second_pass:
  fixes n :: nat
  defines "w1 \<equiv> scanNow home_page (title_world (replicate (Suc n) CHR ''!''))"
  shows "scanNow home_page w1 = snd (processCandidate home_page 0 ''home'' (w1\<lparr>scanEpoch := 2\<rparr>))"
    and "Suc n > 200 \<Longrightarrow>
           fst (processCandidate home_page 0 ''home'' (w1\<lparr>scanEpoch := 2\<rparr>))
             = Classified \<lparr>result_isMusic = True, reason = ''default''\<rparr>"
    and "Suc n > 200 \<Longrightarrow> scanned (debugState (scanNow home_page w1)) = 2"
    and "Suc n \<le> 200 \<Longrightarrow>
           fst (processCandidate home_page 0 ''home'' (w1\<lparr>scanEpoch := 2\<rparr>)) = SkippedProcessed"
    and "Suc n \<le> 200 \<Longrightarrow> scanned (debugState (scanNow home_page w1)) = 1"
proof -
  let ?w0 = "title_world (replicate (Suc n) CHR ''!'')"
  let ?u = "?w0\<lparr>scanEpoch := 1\<rparr>"
  let ?v = "w1\<lparr>scanEpoch := 2\<rparr>"
  let ?d = "extractVideoData (fresh_node (replicate (Suc n) CHR ''!'') [] [] None)"
  note first = punctuation_first_pass [of n]
  have w1: "w1 = snd (processCandidate home_page 0 ''home'' ?u)"
    unfolding w1_def by (rule first(1))
  have dec: "fst (processCandidate home_page 0 ''home'' ?u) = CacheHit True
             \<or> fst (processCandidate home_page 0 ''home'' ?u)
                  = Classified \<lparr>result_isMusic = True, reason = ''default''\<rparr>"
    using first(2) by simp
  have st: "settings w1 = settings ?w0" "matchers w1 = matchers ?w0"
    unfolding w1_def by (simp_all add: scanNow_frame)
  have e1: "scanEpoch w1 = 1" unfolding w1_def by (rule first(4))
  have s1: "scanned (debugState w1) = 1" unfolding w1_def by (rule first(3))
  have dm: "\<not> debugMode (settings w1)" by (simp only: st title_world_fields(8) not_False_eq_True)
  have tg: "targets home_page = [(''home'', [0])]" by (simp add: home_page_def)
  have e2: "scanEpoch w1 + 1 = 2" by (simp add: e1)
  show s: "scanNow home_page w1 = snd (processCandidate home_page 0 ''home'' ?v)"
    using scanNow_single [OF dm tg] by (simp only: e2)
  have el: "elements ?v 0 = elements (snd (processCandidate home_page 0 ''home'' ?u)) 0"
    by (simp add: w1)
  have ne: "scanEpoch ?v \<noteq> scanEpoch ?u" by simp
  have d0: "extractVideoData (elements ?u 0) = ?d" by (simp add: title_world_fields)
  have key: "length (elementKey (extractVideoData (elements ?u 0))) = Suc n"
    by (simp only: d0 punctuation_title_data length_replicate)
  note nv = next_visit [OF dec el ne, where ctx' = "''home''"]
  show long: "fst (processCandidate home_page 0 ''home'' ?v)
             = Classified \<lparr>result_isMusic = True, reason = ''default''\<rparr>"
    if "Suc n > 200"
  proof -
    have kl: "length (elementKey (extractVideoData (elements ?u 0))) > 200"
      using that by (simp only: key)
    have "processCandidate home_page 0 ''home'' ?v
          = decideCandidate home_page 0 ?d (watch_reset home_page 0 (visit 0 ?v))"
      using nv(2) [OF kl] by (simp only: d0)
    then have "fst (processCandidate home_page 0 ''home'' ?v)
          = fst (decideCandidate home_page 0 ?d (watch_reset home_page 0 (visit 0 ?v)))"
      by (rule arg_cong)
    also have "\<dots> = Classified (classifyVideo (settings w1) (matchers w1) ?d)"
      by (simp add: decideCandidate_outcome punctuation_title_data truthy_def del: replicate_Suc)
    also have "\<dots> = Classified \<lparr>result_isMusic = True, reason = ''default''\<rparr>"
      by (simp only: st title_world_fields classify_without_keywords)
    finally show ?thesis .
  qed
  show "scanned (debugState (scanNow home_page w1)) = 2" if "Suc n > 200"
  proof -
    have "scanned (debugState (scanNow home_page w1)) = scanned (debugState ?v) + 1"
      by (simp only: s processCandidate_scanned long [OF that]) simp
    then show ?thesis by (simp add: s1)
  qed
  show short: "fst (processCandidate home_page 0 ''home'' ?v) = SkippedProcessed"
    if "Suc n \<le> 200"
  proof -
    have "processCandidate home_page 0 ''home'' ?v =
          (SkippedProcessed,
              if debugMode (settings ?v)
              then update_debug (\<lambda>d. d\<lparr>skippedProcessed := skippedProcessed d + 1\<rparr>) (visit 0 ?v)
              else visit 0 ?v)"
    proof (rule nv(1))
      show "length (elementKey (extractVideoData (elements ?u 0))) \<le> 200"
        using that by (simp only: key)
      show "''home'' \<noteq> ''watch-sidebar''" by simp
    qed
    then show ?thesis by simp
  qed
  show "scanned (debugState (scanNow home_page w1)) = 1" if "Suc n \<le> 200"
  proof -
    have "scanned (debugState (scanNow home_page w1)) = scanned (debugState ?v) + 0"
      by (simp only: s processCandidate_scanned short [OF that]) simp
    then show ?thesis by (simp add: s1)
  qed
qed

text \<open>
  Claim C6, at a failing input. A tile of the home page whose title is 201 exclamation
  marks and that has no video id: its key is the title, 201 units long. The first scan
  classifies it. The second scan, with the same context, the same content and no rescan
  in between, does not skip it: it is classified again, and the count of
  classifications stands at 2. With a title of 200 exclamation marks the second scan
  skips the tile and the count stays at 1.
\<close>

theorem long_key_reclassified_each_pass:
  "scanned (debugState (scanNow home_page (title_world (replicate 201 CHR ''!'')))) = 1
   \<and> fst (processCandidate home_page 0 ''home''
        ((scanNow home_page (title_world (replicate 201 CHR ''!'')))\<lparr>scanEpoch := 2\<rparr>))
      = Classified \<lparr>result_isMusic = True, reason = ''default''\<rparr>
   \<and> scanned (debugState (scanNow home_page (scanNow home_page
        (title_world (replicate 201 CHR ''!''))))) = 2
   \<and> fst (processCandidate home_page 0 ''home''
        ((scanNow home_page (title_world (replicate 200 CHR ''!'')))\<lparr>scanEpoch := 2\<rparr>))
      = SkippedProcessed
   \<and> scanned (debugState (scanNow home_page (scanNow home_page
        (title_world (replicate 200 CHR ''!''))))) = 1"
proof -
  have l: "title_world (replicate 201 CHR ''!'') = title_world (replicate (Suc 200) CHR ''!'')"
    "title_world (replicate 200 CHR ''!'') = title_world (replicate (Suc 199) CHR ''!'')"
    by simp_all
  have a: "Suc 200 > (200 :: nat)" "Suc 199 \<le> (200 :: nat)" by simp_all
  show ?thesis
    unfolding l
    using punctuation_first_pass(3) [of 200] punctuation_second_pass(2,3) [OF a(1)]
      punctuation_second_pass(4,5) [OF a(2)]
    by blast
qed

theorem truncated_key_never_skips_witness:
  "stored_key_ok (elements ((scanNow home_page (title_world (replicate 201 CHR ''!'')))\<lparr>scanEpoch := 2\<rparr>) 0)
   \<and> length (elementKey (extractVideoData
        (elements ((scanNow home_page (title_world (replicate 201 CHR ''!'')))\<lparr>scanEpoch := 2\<rparr>) 0))) = 201
   \<and> mvProcessed (elements ((scanNow home_page (title_world (replicate 201 CHR ''!'')))\<lparr>scanEpoch := 2\<rparr>) 0)
       = Some ''1''
   \<and> fst (processCandidate home_page 0 ''home''
        ((scanNow home_page (title_world (replicate 201 CHR ''!'')))\<lparr>scanEpoch := 2\<rparr>)) \<noteq> SkippedProcessed"
proof -
  let ?w0 = "title_world (replicate (Suc 200) CHR ''!'')"
  let ?w1 = "scanNow home_page ?w0"
  let ?v = "?w1\<lparr>scanEpoch := 2\<rparr>"
  have l: "title_world (replicate 201 CHR ''!'') = title_world (replicate (Suc 200) CHR ''!'')"
    by simp
  have "\<forall>j. stored_key_ok (elements ?w0 j)"
    by (simp add: title_world_fields stored_key_ok_def fresh_node_fields)
  then have "\<forall>j. stored_key_ok (elements ?w1 j)" by (rule scanNow_stored_key_ok)
  then have a: "stored_key_ok (elements ?v 0)" by simp
  have w1: "?w1 = snd (processCandidate home_page 0 ''home'' (?w0\<lparr>scanEpoch := 1\<rparr>))"
    by (rule punctuation_first_pass(1))
  have dec: "fst (processCandidate home_page 0 ''home'' (?w0\<lparr>scanEpoch := 1\<rparr>)) = CacheHit True
      \<or> fst (processCandidate home_page 0 ''home'' (?w0\<lparr>scanEpoch := 1\<rparr>))
           = Classified \<lparr>result_isMusic = True, reason = ''default''\<rparr>"
    using punctuation_first_pass(2) [of 200] by simp
  have "extractVideoData (elements ?v 0) = extractVideoData (elements ?w1 0)" by simp
  also have "\<dots> = extractVideoData (elements (?w0\<lparr>scanEpoch := 1\<rparr>) 0)"
    by (subst w1) (rule processCandidate_extract)
  also have "\<dots> = extractVideoData (fresh_node (replicate (Suc 200) CHR ''!'') [] [] None)"
    by (simp add: title_world_fields del: replicate_Suc)
  finally have x: "extractVideoData (elements ?v 0)
           = extractVideoData (fresh_node (replicate (Suc 200) CHR ''!'') [] [] None)" .
  have "length (elementKey (extractVideoData (elements ?v 0))) = Suc 200"
    by (simp only: x punctuation_title_data length_replicate)
  then have b: "length (elementKey (extractVideoData (elements ?v 0))) = 201" by simp
  have "mvProcessed (elements ?w1 0) = Some ''1''"
    by (subst w1) (rule processCandidate_decided_mvKey(2) [OF dec])
  then have c: "mvProcessed (elements ?v 0) = Some ''1''" by simp
  from b have b': "length (elementKey (extractVideoData (elements ?v 0))) > 200" by simp
  from truncated_key_never_skips [where w = ?v and i = 0 and pg = home_page and ctx = "''home''"] a b'
  have "fst (processCandidate home_page 0 ''home'' ?v) \<noteq> SkippedProcessed" by blast
  with a b c show ?thesis unfolding l by blast
qed

section \<open>Properties of the forced rescan\<close>

text \<open>A visit that ends as skipped-because-processed changes nothing but the node's
  epoch stamp (and a debug counter): no classification, no cache access, no change of
  the visibility marks, no hide timer.\<close>

lemma processCandidate_skipped_state:
  assumes "fst (processCandidate pg i ctx w) = SkippedProcessed"
  shows "cache (snd (processCandidate pg i ctx w)) = cache w"
    and "hideTimers (snd (processCandidate pg i ctx w)) = hideTimers w"
    and "scanned (debugState (snd (processCandidate pg i ctx w))) = scanned (debugState w)"
    and "mv_blocked (elements (snd (processCandidate pg i ctx w)) j) = mv_blocked (elements w j)"
    and "mv_hidden (elements (snd (processCandidate pg i ctx w)) j) = mv_hidden (elements w j)"
    and "mvProcessed (elements (snd (processCandidate pg i ctx w)) j) = mvProcessed (elements w j)"
    and "mvKey (elements (snd (processCandidate pg i ctx w)) j) = mvKey (elements w j)"
proof -
  have "snd (processCandidate pg i ctx w) =
     (if debugMode (settings w)
      then update_debug (\<lambda>d. d\<lparr>skippedProcessed := skippedProcessed d + 1\<rparr>) (visit i w)
      else visit i w)"
  proof (cases rule: processCandidate_cases [of w i pg ctx])
    case epoch
    then show ?thesis using assms by simp
  next
    case no_data
    then show ?thesis using assms by simp
  next
    case skip
    then show ?thesis by simp
  next
    case decide
    then show ?thesis
      using assms decideCandidate_decides [of pg i "extractVideoData (elements w i)" "watch_reset pg i (visit i w)"]
      by auto
  qed
  then show "cache (snd (processCandidate pg i ctx w)) = cache w"
    and "hideTimers (snd (processCandidate pg i ctx w)) = hideTimers w"
    and "scanned (debugState (snd (processCandidate pg i ctx w))) = scanned (debugState w)"
    and "mv_blocked (elements (snd (processCandidate pg i ctx w)) j) = mv_blocked (elements w j)"
    and "mv_hidden (elements (snd (processCandidate pg i ctx w)) j) = mv_hidden (elements w j)"
    and "mvProcessed (elements (snd (processCandidate pg i ctx w)) j) = mvProcessed (elements w j)"
    and "mvKey (elements (snd (processCandidate pg i ctx w)) j) = mvKey (elements w j)"
    by simp_all
qed































end
